theory Spec2Isabelle
  imports Complex_Main "HOL-Library.Multiset" "HOL-Library.Monad_Syntax"
begin

section \<open>Errors thrown by the SDK\<close>

text \<open>
  Every \<^verbatim>\<open>throw\<close> of the TypeScript sources is a value of \<open>error\<close>; a function that can
  throw returns \<open>error + 'a\<close> with \<open>Inl\<close> for the exception.

  \<^item> \<open>Error msg\<close> is a plain JavaScript \<^verbatim>\<open>new Error(msg)\<close>;
  \<^item> \<open>ApiErrorException status_code api_error\<close> is the class of \<^verbatim>\<open>models/errors\<close>;
  \<^item> \<open>ValidationErrorException msg\<close> and \<open>ValidationVirusException msg\<close> are the two classes
    that \<^verbatim>\<open>models/html.ts\<close> and \<^verbatim>\<open>models/email.ts\<close> import from \<^verbatim>\<open>./errors\<close>: each carries the
    message it was constructed with;
  \<^item> \<open>TypeError msg\<close> is the rejection of \<^verbatim>\<open>fetch\<close> when no response arrives at all;
  \<^item> \<open>ZodError\<close> is what \<^verbatim>\<open>schema.parse\<close> throws on a value that does not match the schema;
  \<^item> \<open>SyntaxError\<close> is what \<^verbatim>\<open>res.json()\<close> throws on a body that is not JSON;
  \<^item> \<open>RangeError\<close> is what \<^verbatim>\<open>Uint8Array.prototype.set\<close> throws when the source does not fit.
\<close>

record ApiError =
  code :: int
  name :: string
  message :: string

datatype error =
    Error string
  | ApiErrorException int ApiError
  | ValidationErrorException string
  | ValidationVirusException string
  | TypeError string
  | ZodError
  | SyntaxError
  | RangeError

section \<open>Quadrilaterals (\<^verbatim>\<open>models/img\<close>)\<close>

text \<open>
  \<^verbatim>\<open>RelativePosition\<close> is \<^verbatim>\<open>{x: number, y: number}\<close>. The fields are called \<open>pos_x\<close> and
  \<open>pos_y\<close> here. Coordinates are rational numbers: the functions below only compare them,
  and the order of finite floating point numbers is the order of the rationals they denote.
\<close>

record RelativePosition =
  pos_x :: rat
  pos_y :: rat

record Quadrilateral =
  top_left :: RelativePosition
  top_right :: RelativePosition
  bottom_right :: RelativePosition
  bottom_left :: RelativePosition

text \<open>The range check of \<^verbatim>\<open>RelativePositionSchema\<close>: \<^verbatim>\<open>z.number().min(0.0).max(1.0)\<close> on both fields.\<close>

definition RelativePositionSchema :: "RelativePosition \<Rightarrow> bool" where
  "RelativePositionSchema p =
     (0 \<le> pos_x p \<and> pos_x p \<le> 1 \<and> 0 \<le> pos_y p \<and> pos_y p \<le> 1)"

text \<open>The \<^verbatim>\<open>refine\<close> predicate of \<^verbatim>\<open>QuadrilateralSchema\<close>.\<close>

definition QuadrilateralSchema_refine :: "Quadrilateral \<Rightarrow> bool" where
  "QuadrilateralSchema_refine data =
     (pos_x (top_left data) \<le> pos_x (top_right data) \<and>
      pos_x (bottom_left data) \<le> pos_x (bottom_right data) \<and>
      pos_y (top_left data) \<le> pos_y (bottom_left data) \<and>
      pos_y (top_right data) \<le> pos_y (bottom_right data))"

text \<open>
  \<^verbatim>\<open>QuadrilateralUtils.fromUnsorted\<close>. \<^verbatim>\<open>Array.prototype.sort\<close> is stable, and the comparator
  \<^verbatim>\<open>(a, b) => a.y - b.y\<close> orders by the key \<^verbatim>\<open>y\<close> ascending, so the call is \<open>sort_key pos_y\<close>
  (a stable sort by key); \<^verbatim>\<open>slice(0, 2)\<close> is \<open>take 2\<close> and \<^verbatim>\<open>slice(2)\<close> is \<open>drop 2\<close>. The
  indices 0 and 1 are in range, since both halves of a list of four have two elements.
\<close>

definition fromUnsorted :: "RelativePosition list \<Rightarrow> error + Quadrilateral" where
  "fromUnsorted points =
     (if length points \<noteq> 4 then Inl (Error ''Quadrilateral must have 4 points'')
      else
        let sortedByY = sort_key pos_y points;
            top = take 2 sortedByY;
            bottom = drop 2 sortedByY;
            sortedTop = sort_key pos_x top;
            sortedBottom = sort_key pos_x bottom;
            topLeft = sortedTop ! 0;
            topRight = sortedTop ! 1;
            bottomLeft = sortedBottom ! 0;
            bottomRight = sortedBottom ! 1
        in Inr \<lparr> top_left = topLeft, top_right = topRight,
                 bottom_right = bottomRight, bottom_left = bottomLeft \<rparr>)"

text \<open>The four corner fields of a quadrilateral, in the order of the schema.\<close>

definition corners :: "Quadrilateral \<Rightarrow> RelativePosition list" where
  "corners q = [top_left q, top_right q, bottom_right q, bottom_left q]"

section \<open>JSON values and the error envelope (\<^verbatim>\<open>models/errors\<close>)\<close>

text \<open>
  A parsed JSON value. An object is the list of its entries, one per key (as \<^verbatim>\<open>JSON.parse\<close>
  builds it); numbers are rationals.
\<close>

datatype json =
    JNull
  | JBool bool
  | JNumber rat
  | JString string
  | JArray "json list"
  | JObject "(string \<times> json) list"

text \<open>Property access \<^verbatim>\<open>j[k]\<close>: \<open>None\<close> is \<^verbatim>\<open>undefined\<close>.\<close>

definition field :: "string \<Rightarrow> json \<Rightarrow> json option" where
  "field k j = (case j of JObject kvs \<Rightarrow> map_of kvs k | _ \<Rightarrow> None)"

text \<open>JavaScript truthiness of a JSON value, as in \<^verbatim>\<open>if (body)\<close>.\<close>

definition truthy :: "json \<Rightarrow> bool" where
  "truthy j = (case j of JNull \<Rightarrow> False | JBool b \<Rightarrow> b | JNumber r \<Rightarrow> r \<noteq> 0
                 | JString s \<Rightarrow> s \<noteq> [] | _ \<Rightarrow> True)"

text \<open>
  A Zod schema is its \<^verbatim>\<open>parse\<close> function: \<open>None\<close> where \<^verbatim>\<open>parse\<close> throws a \<^verbatim>\<open>ZodError\<close>.
  \<^verbatim>\<open>z.number().int()\<close> of \<^verbatim>\<open>zod/v4\<close> accepts the integers of the safe range.
\<close>

type_synonym 'a schema = "json \<Rightarrow> 'a option"

definition z_number_int :: "int schema" where
  "z_number_int j =
     (case j of
        JNumber r \<Rightarrow>
          if of_int \<lfloor>r\<rfloor> = r \<and> \<bar>r\<bar> \<le> 2 ^ 53 - 1 then Some \<lfloor>r\<rfloor> else None
      | _ \<Rightarrow> None)"

definition z_string :: "string schema" where
  "z_string j = (case j of JString s \<Rightarrow> Some s | _ \<Rightarrow> None)"

text \<open>\<^verbatim>\<open>ApiErrorSchema = z.object({code: z.number().int(), name: z.string(), message: z.string()})\<close>\<close>

definition ApiErrorSchema :: "ApiError schema" where
  "ApiErrorSchema j =
     do {
       c \<leftarrow> Option.bind (field ''code'' j) z_number_int;
       n \<leftarrow> Option.bind (field ''name'' j) z_string;
       m \<leftarrow> Option.bind (field ''message'' j) z_string;
       Some \<lparr> code = c, name = n, message = m \<rparr>
     }"

record HttpErrorResponse =
  status_code :: int
  api_error :: ApiError

text \<open>\<^verbatim>\<open>HttpErrorResponseSchema = z.object({status_code: z.number().int(), api_error: ApiErrorSchema})\<close>\<close>

definition HttpErrorResponseSchema :: "HttpErrorResponse schema" where
  "HttpErrorResponseSchema j =
     do {
       sc \<leftarrow> Option.bind (field ''status_code'' j) z_number_int;
       ae \<leftarrow> Option.bind (field ''api_error'' j) ApiErrorSchema;
       Some \<lparr> status_code = sc, api_error = ae \<rparr>
     }"

text \<open>\<^verbatim>\<open>ApiErrorException.fromHttpResponse\<close>\<close>

definition fromHttpResponse :: "HttpErrorResponse \<Rightarrow> error" where
  "fromHttpResponse response = ApiErrorException (status_code response) (api_error response)"

section \<open>The transport: \<^verbatim>\<open>fetch\<close>\<close>

text \<open>
  A \<^verbatim>\<open>Response\<close> as the SDK reads it: its status and status text, the value of
  \<^verbatim>\<open>headers.get("Content-Length")\<close> (\<open>None\<close> is \<^verbatim>\<open>null\<close>), the chunks that the reader of
  \<^verbatim>\<open>body\<close> delivers before it reports \<^verbatim>\<open>done\<close> (\<open>None\<close> is a \<^verbatim>\<open>null\<close> body), and the outcome
  of \<^verbatim>\<open>json()\<close> (\<open>None\<close> where the body is not JSON and \<^verbatim>\<open>json()\<close> throws). A byte is a
  natural number below 256.
\<close>

record Response =
  status :: nat
  statusText :: string
  content_length :: "string option"
  body :: "nat list list option"
  json :: "json option"

text \<open>\<^verbatim>\<open>Response.ok\<close>: the status is in the range 200 to 299.\<close>

definition ok :: "Response \<Rightarrow> bool" where
  "ok res = (200 \<le> status res \<and> status res \<le> 299)"

text \<open>
  A file to upload, and the body of a request: the JSON value that \<^verbatim>\<open>JSON.stringify\<close> prints,
  or a \<^verbatim>\<open>FormData\<close> with its string fields in order and the file appended last.
\<close>

record File =
  file_name :: string
  file_size :: nat
  file_type :: string

datatype body_init = JsonBody json | FormData "(string \<times> string) list" File

record Request =
  http_method :: string
  url :: string
  headers :: "(string \<times> string) list"
  req_body :: "body_init option"

text \<open>
  The world outside the SDK is a state \<open>'s\<close>; \<^verbatim>\<open>await fetch(url, init)\<close> is a step of it that
  answers with a response, or rejects with a \<^verbatim>\<open>TypeError\<close> (\<open>Inl\<close> of its message).
\<close>

type_synonym 's fetch = "Request \<Rightarrow> 's \<Rightarrow> (string + Response) \<times> 's"

text \<open>Decimal digits of a number, as a template literal prints \<^verbatim>\<open>${res.status}\<close>.\<close>

function show_nat :: "nat \<Rightarrow> string" where
  "show_nat n =
     (if n < 10 then [''0123456789'' ! n]
      else show_nat (n div 10) @ [''0123456789'' ! (n mod 10)])"
  by pat_completeness auto
termination
  by (relation "measure id") auto

declare show_nat.simps [simp del]

section \<open>\<^verbatim>\<open>FetchWrapper\<close> (\<^verbatim>\<open>shared/fetchWrapper.ts\<close>)\<close>

definition MAX_RETRIES :: nat where
  "MAX_RETRIES = 120"

record FetchWrapper =
  jwt :: string
  apiUrlWithVersion :: string

text \<open>The \<^verbatim>\<open>RequestInit\<close> that \<^verbatim>\<open>request\<close> and \<^verbatim>\<open>pollResult\<close> build, with the URL they fetch.\<close>

definition requestInit :: "FetchWrapper \<Rightarrow> string \<Rightarrow> string \<Rightarrow> json option \<Rightarrow> Request" where
  "requestInit w m path b =
     \<lparr> http_method = m,
       url = apiUrlWithVersion w @ path,
       headers = [(''Content-Type'', ''application/json''),
                  (''Authorization'', ''Bearer '' @ jwt w)],
       req_body = (case b of None \<Rightarrow> None
                   | Some j \<Rightarrow> if truthy j then Some (JsonBody j) else None) \<rparr>"

text \<open>
  The success branch shared by \<^verbatim>\<open>request\<close> and \<^verbatim>\<open>pollResult\<close>:
  \<^verbatim>\<open>let data = await res.json(); try { return schema.parse(data) } catch (error) { ...; throw error }\<close>.
\<close>

definition parse_data :: "Response \<Rightarrow> 'a schema \<Rightarrow> error + 'a" where
  "parse_data res schema =
     (case json res of
        None \<Rightarrow> Inl SyntaxError
      | Some data \<Rightarrow> (case schema data of None \<Rightarrow> Inl ZodError | Some v \<Rightarrow> Inr v))"

text \<open>
  The failure branch shared by \<^verbatim>\<open>request\<close> and \<^verbatim>\<open>pollResult\<close>: the \<^verbatim>\<open>try\<close> block reads the
  body as JSON, parses it as the error envelope and throws the \<^verbatim>\<open>ApiErrorException\<close>; the
  \<^verbatim>\<open>catch\<close> rethrows an \<^verbatim>\<open>ApiErrorException\<close> and replaces any other exception by
  \<^verbatim>\<open>new Error(`HTTP error! status: ${res.status} ${res.statusText}`)\<close>.
\<close>

definition http_error :: "Response \<Rightarrow> error" where
  "http_error res =
     Error (''HTTP error! status: '' @ show_nat (status res) @ '' '' @ statusText res)"

definition error_of_response :: "Response \<Rightarrow> error" where
  "error_of_response res =
     (case json res of
        None \<Rightarrow> http_error res
      | Some data \<Rightarrow>
          (case HttpErrorResponseSchema data of
             None \<Rightarrow> http_error res
           | Some e \<Rightarrow> fromHttpResponse e))"

text \<open>\<^verbatim>\<open>FetchWrapper.request\<close>\<close>

definition request ::
  "'s fetch \<Rightarrow> FetchWrapper \<Rightarrow> string \<Rightarrow> string \<Rightarrow> json option \<Rightarrow> 'a schema \<Rightarrow> 's
     \<Rightarrow> (error + 'a) \<times> 's" where
  "request fetch w m path b schema s =
     (case fetch (requestInit w m path b) s of
        (Inl msg, s') \<Rightarrow> (Inl (TypeError msg), s')
      | (Inr res, s') \<Rightarrow>
          if status res = 200 \<or> status res = 201 then (parse_data res schema, s')
          else (Inl (error_of_response res), s'))"

text \<open>\<^verbatim>\<open>FetchWrapper.get\<close> and \<^verbatim>\<open>FetchWrapper.post\<close>\<close>

definition get :: "'s fetch \<Rightarrow> FetchWrapper \<Rightarrow> string \<Rightarrow> 'a schema \<Rightarrow> 's \<Rightarrow> (error + 'a) \<times> 's" where
  "get fetch w path schema = request fetch w ''GET'' path None schema"

definition post ::
  "'s fetch \<Rightarrow> FetchWrapper \<Rightarrow> string \<Rightarrow> json \<Rightarrow> 'a schema \<Rightarrow> 's \<Rightarrow> (error + 'a) \<times> 's" where
  "post fetch w path b schema = request fetch w ''POST'' path (Some b) schema"

text \<open>
  \<^verbatim>\<open>FetchWrapper.pollResult\<close>. The \<^verbatim>\<open>while (true)\<close> loop is the recursion of \<open>pollResult_loop\<close>
  on the local variable \<^verbatim>\<open>retry_count\<close>; \<^verbatim>\<open>continue\<close> is the recursive call. The loop ends:
  it goes round only while \<^verbatim>\<open>retry_count\<close> stays at most \<open>MAX_RETRIES\<close>.
\<close>

function pollResult_loop ::
  "'s fetch \<Rightarrow> FetchWrapper \<Rightarrow> string \<Rightarrow> 'a schema \<Rightarrow> nat \<Rightarrow> 's \<Rightarrow> (error + 'a) \<times> 's" where
  "pollResult_loop fetch w path schema retry_count s =
     (case fetch (requestInit w ''GET'' path None) s of
        (Inl msg, s') \<Rightarrow> (Inl (TypeError msg), s')
      | (Inr res, s') \<Rightarrow>
          if status res = 200 then (parse_data res schema, s')
          else if status res = 202 then
            (if retry_count + 1 > MAX_RETRIES
             then (Inl (Error ''Failed processing the request in a reasonable time''), s')
             else pollResult_loop fetch w path schema (retry_count + 1) s')
          else (Inl (error_of_response res), s'))"
  by pat_completeness auto
termination
  by (relation "measure (\<lambda>(fetch, w, path, schema, retry_count, s). MAX_RETRIES + 1 - retry_count)")
     auto

declare pollResult_loop.simps [simp del]

definition pollResult ::
  "'s fetch \<Rightarrow> FetchWrapper \<Rightarrow> string \<Rightarrow> 'a schema \<Rightarrow> 's \<Rightarrow> (error + 'a) \<times> 's" where
  "pollResult fetch w path schema s = pollResult_loop fetch w path schema 0 s"

text \<open>
  The world as a poll loop sees it: \<open>after_polls fetch r n s\<close> is the state after \<open>n\<close> fetches
  of the request \<open>r\<close> from \<open>s\<close>, and \<open>reply fetch r n s\<close> is the answer to the next one.
\<close>

fun after_polls :: "'s fetch \<Rightarrow> Request \<Rightarrow> nat \<Rightarrow> 's \<Rightarrow> 's" where
  "after_polls fetch r 0 s = s"
| "after_polls fetch r (Suc n) s = after_polls fetch r n (snd (fetch r s))"

definition reply :: "'s fetch \<Rightarrow> Request \<Rightarrow> nat \<Rightarrow> 's \<Rightarrow> string + Response" where
  "reply fetch r n s = fst (fetch r (after_polls fetch r n s))"

text \<open>The answer is a response with the given status.\<close>

definition has_status :: "string + Response \<Rightarrow> nat \<Rightarrow> bool" where
  "has_status a n = (case a of Inl msg \<Rightarrow> False | Inr res \<Rightarrow> status res = n)"

text \<open>
  Modelled from the spec: \<^verbatim>\<open>TaskCreatedResponseSchema\<close> of \<^verbatim>\<open>models/misc\<close> is not among the
  sources; the spec gives the created-job descriptor as \<^verbatim>\<open>{job_id: string}\<close>.
\<close>

record TaskCreatedResponse =
  job_id :: string

definition TaskCreatedResponseSchema :: "TaskCreatedResponse schema" where
  "TaskCreatedResponseSchema j =
     do { i \<leftarrow> Option.bind (field ''job_id'' j) z_string; Some \<lparr> job_id = i \<rparr> }"

subsection \<open>Example transports\<close>

text \<open>A response that carries a JSON body (or none), and a wrapper to send requests with.\<close>

definition json_response :: "nat \<Rightarrow> string \<Rightarrow> json option \<Rightarrow> Response" where
  "json_response st txt j =
     \<lparr> status = st, statusText = txt, content_length = None, body = None, json = j \<rparr>"

definition example_wrapper :: FetchWrapper where
  "example_wrapper = \<lparr> jwt = ''token'', apiUrlWithVersion = ''https://api.example/v1'' \<rparr>"

text \<open>
  A server that answers 202 to the first two requests and then 200 with the JSON string
  \<^verbatim>\<open>"done"\<close>; its state counts the requests it has seen.
\<close>

definition pending_twice :: "nat fetch" where
  "pending_twice r n =
     (Inr (if n < 2 then json_response 202 ''Accepted'' None
           else json_response 200 ''OK'' (Some (JString ''done''))), Suc n)"

text \<open>A server that answers every request with the same response.\<close>

definition always :: "Response \<Rightarrow> unit fetch" where
  "always res r u = (Inr res, ())"

text \<open>Example bodies: a created-job descriptor, and an error envelope with the keys of
  \<^verbatim>\<open>HttpErrorResponseSchema\<close> and with camel-case keys.\<close>

definition job_created :: json where
  "job_created = JObject [(''job_id'', JString ''job-1'')]"

definition too_large_envelope :: json where
  "too_large_envelope =
     JObject [(''status_code'', JNumber 413),
              (''api_error'', JObject [(''code'', JNumber 301),
                                       (''name'', JString ''PDF_TOO_LARGE''),
                                       (''message'', JString ''too large'')])]"

definition camel_case_envelope :: json where
  "camel_case_envelope =
     JObject [(''statusCode'', JNumber 413),
              (''apiError'', JObject [(''code'', JNumber 301),
                                      (''name'', JString ''PDF_TOO_LARGE''),
                                      (''message'', JString ''too large'')])]"

section \<open>Validation responses and their unwrappers (\<^verbatim>\<open>models\<close>)\<close>

text \<open>
  A validation response is \<^verbatim>\<open>{class_name, response}\<close>, where \<^verbatim>\<open>response\<close> is the object that
  carries the tag \<^verbatim>\<open>class_name\<close> and the payload of its variant: the handle, the \<^verbatim>\<open>error\<close>
  message or the \<^verbatim>\<open>virus\<close> message. The tag is a string, as at run time, so that a tag
  outside the three of the schema can be written down; the unwrappers read only the payload
  field that belongs to the tag they find.
\<close>

record validate_variant =
  class_name :: string
  error :: string
  virus :: string

record HtmlValidateResponse_response = validate_variant +
  html_handle :: string

record EmailValidateResponse_response = validate_variant +
  email_handle :: string

record 'r ValidateResponse =
  outer_class_name :: string
  response :: 'r

type_synonym HtmlValidateResponse = "HtmlValidateResponse_response ValidateResponse"
type_synonym EmailValidateResponse = "EmailValidateResponse_response ValidateResponse"

text \<open>
  The validation responses of images and of PDFs (\<^verbatim>\<open>ImgValidateResponseSchema\<close>,
  \<^verbatim>\<open>PdfValidateResponseSchema\<close>) have the same shape, with the handles \<^verbatim>\<open>img_handle\<close> and
  \<^verbatim>\<open>pdf_handle\<close>.
\<close>

record ImgValidateResponse_response = validate_variant +
  img_handle :: string

record PdfValidateResponse_response = validate_variant +
  pdf_handle :: string

type_synonym ImgValidateResponse = "ImgValidateResponse_response ValidateResponse"
type_synonym PdfValidateResponse = "PdfValidateResponse_response ValidateResponse"

text \<open>\<^verbatim>\<open>okHtml\<close>\<close>

definition okHtml :: "HtmlValidateResponse \<Rightarrow> error + string" where
  "okHtml r =
     (if class_name (response r) = ''HtmlValidateResponseOk'' then
        Inr (html_handle (response r))
      else if class_name (response r) = ''HtmlValidateResponseError'' then
        Inl (ValidationErrorException (error (response r)))
      else if class_name (response r) = ''HtmlValidateResponseVirus'' then
        Inl (ValidationVirusException (virus (response r)))
      else Inl (ValidationErrorException ''Unknown validation response type''))"

text \<open>\<^verbatim>\<open>okEmail\<close>\<close>

definition okEmail :: "EmailValidateResponse \<Rightarrow> error + string" where
  "okEmail r =
     (if class_name (response r) = ''EmailValidateResponseOk'' then
        Inr (email_handle (response r))
      else if class_name (response r) = ''EmailValidateResponseError'' then
        Inl (ValidationErrorException (error (response r)))
      else if class_name (response r) = ''EmailValidateResponseVirus'' then
        Inl (ValidationVirusException (virus (response r)))
      else Inl (ValidationErrorException ''Unknown validation response type''))"

text \<open>
  Modelled from the spec: \<^verbatim>\<open>okImg\<close> of \<^verbatim>\<open>models/img\<close> and \<^verbatim>\<open>okPdf\<close> of \<^verbatim>\<open>models/pdf\<close>, which
  \<^verbatim>\<open>flow.ts\<close> imports and calls, are not among the sources; only the schemas of the responses
  that they read are. The spec gives one unwrapper, reused identically across every content
  kind: the handle for the Ok tag, a validation error with the original message for the
  Error tag, a threat error with the virus message for the Virus tag, and a validation error
  for any other tag. The two definitions are therefore the branch of \<open>okHtml\<close> and \<open>okEmail\<close>,
  with the message that their default branch has in the code, over the tags and the handle
  of the image and of the PDF schema.
\<close>

definition okImg_spec :: "ImgValidateResponse \<Rightarrow> error + string" where
  "okImg_spec r =
     (if class_name (response r) = ''ImgValidateResponseOk'' then
        Inr (img_handle (response r))
      else if class_name (response r) = ''ImgValidateResponseError'' then
        Inl (ValidationErrorException (error (response r)))
      else if class_name (response r) = ''ImgValidateResponseVirus'' then
        Inl (ValidationVirusException (virus (response r)))
      else Inl (ValidationErrorException ''Unknown validation response type''))"

text \<open>
  Modelled from the spec: \<^verbatim>\<open>okPdf\<close> of \<^verbatim>\<open>models/pdf\<close>, missing like \<^verbatim>\<open>okImg\<close>; the same
  unwrapper over the tags and the handle of \<^verbatim>\<open>PdfValidateResponseSchema\<close>.
\<close>

definition okPdf_spec :: "PdfValidateResponse \<Rightarrow> error + string" where
  "okPdf_spec r =
     (if class_name (response r) = ''PdfValidateResponseOk'' then
        Inr (pdf_handle (response r))
      else if class_name (response r) = ''PdfValidateResponseError'' then
        Inl (ValidationErrorException (error (response r)))
      else if class_name (response r) = ''PdfValidateResponseVirus'' then
        Inl (ValidationVirusException (virus (response r)))
      else Inl (ValidationErrorException ''Unknown validation response type''))"

text \<open>An HTML validation response with a tag that the schema does not know.\<close>

definition quarantined_html :: HtmlValidateResponse where
  "quarantined_html =
     \<lparr> outer_class_name = ''HtmlValidateResponse'',
       response = \<lparr> class_name = ''HtmlValidateResponseQuarantined'', error = '''', virus = '''',
                    html_handle = '''' \<rparr> \<rparr>"

text \<open>
  Validation responses of an image and of a PDF: a validated image, an image under a tag that
  the schema does not know, a PDF in which a virus was found, and a PDF that was rejected.
\<close>

definition validated_img :: ImgValidateResponse where
  "validated_img =
     \<lparr> outer_class_name = ''ImgValidateResponse'',
       response = \<lparr> class_name = ''ImgValidateResponseOk'', error = '''', virus = '''',
                    img_handle = ''img-5'' \<rparr> \<rparr>"

definition quarantined_img :: ImgValidateResponse where
  "quarantined_img =
     \<lparr> outer_class_name = ''ImgValidateResponse'',
       response = \<lparr> class_name = ''ImgValidateResponseQuarantined'', error = '''',
                    virus = '''', img_handle = '''' \<rparr> \<rparr>"

definition infected_pdf :: PdfValidateResponse where
  "infected_pdf =
     \<lparr> outer_class_name = ''PdfValidateResponse'',
       response = \<lparr> class_name = ''PdfValidateResponseVirus'', error = '''', virus = ''EICAR'',
                    pdf_handle = '''' \<rparr> \<rparr>"

definition rejected_pdf :: PdfValidateResponse where
  "rejected_pdf =
     \<lparr> outer_class_name = ''PdfValidateResponse'',
       response = \<lparr> class_name = ''PdfValidateResponseError'', error = ''not a PDF'',
                    virus = '''', pdf_handle = '''' \<rparr> \<rparr>"

section \<open>\<^verbatim>\<open>DataEp\<close> (\<^verbatim>\<open>MaraDocsClient/dataEp.ts\<close>)\<close>

subsection \<open>JavaScript numbers\<close>

text \<open>
  A JavaScript number is an IEEE 754 double. A finite double is the rational number it
  denotes, and an arithmetic operation returns the exact result rounded to the nearest
  double, ties to the even significand. \<open>round_half_even\<close> rounds a rational to the nearest
  integer, ties to even; \<open>ilog2 x\<close> is the binary exponent of a positive \<open>x\<close>, the integer
  \<open>e\<close> with \<open>2 powi e \<le> x < 2 powi (e + 1)\<close>; \<open>round_double\<close> rounds to 53 significant
  bits, and to multiples of \<open>2 powi - 1074\<close> in the subnormal range. A result of magnitude
  \<open>2 powi 1024\<close> or more is \<^verbatim>\<open>Infinity\<close> in JavaScript and has no value here: the lengths and
  byte counts of the platform are below \<open>2 ^ 64\<close>, and the theorems bound the length that
  \<^verbatim>\<open>parseInt\<close> reads.
\<close>

definition round_half_even :: "rat \<Rightarrow> int" where
  "round_half_even x =
     (let f = \<lfloor>x\<rfloor>; d = x - of_int f
      in if d < 1/2 then f else if 1/2 < d then f + 1 else if even f then f else f + 1)"

function ilog2 :: "rat \<Rightarrow> int" where
  "ilog2 x =
     (if 2 \<le> x then ilog2 (x / 2) + 1
      else if 0 < x \<and> x < 1 then ilog2 (x * 2) - 1
      else 0)"
  by pat_completeness auto
termination
proof (relation "measure (\<lambda>x. nat \<lfloor>x\<rfloor> + 2 * nat \<lceil>1 / x\<rceil>)")
  show "wf (measure (\<lambda>x::rat. nat \<lfloor>x\<rfloor> + 2 * nat \<lceil>1 / x\<rceil>))" by simp
next
  fix x :: rat
  assume x: "2 \<le> x"
  have c1: "\<lceil>1 / x\<rceil> = 1" using x by (intro ceiling_unique) (auto simp: field_simps)
  have c2: "\<lceil>1 / (x / 2)\<rceil> = 1" using x by (intro ceiling_unique) (auto simp: field_simps)
  have "x / 2 \<le> x - 1" using x by simp
  then have "\<lfloor>x / 2\<rfloor> \<le> \<lfloor>x - 1\<rfloor>" by (rule floor_mono)
  then have f: "\<lfloor>x / 2\<rfloor> < \<lfloor>x\<rfloor>" by simp
  have "0 \<le> \<lfloor>x / 2\<rfloor>" using x by simp
  with x f c1 c2 show "(x / 2, x) \<in> measure (\<lambda>x. nat \<lfloor>x\<rfloor> + 2 * nat \<lceil>1 / x\<rceil>)"
    by simp
next
  fix x :: rat
  assume "\<not> 2 \<le> x" and x: "0 < x \<and> x < 1"
  have f0: "\<lfloor>x\<rfloor> = 0" using x by (intro floor_unique) auto
  have f1: "\<lfloor>x * 2\<rfloor> \<le> 1"
  proof -
    have "x * 2 < 2" using x by simp
    then have "\<lfloor>x * 2\<rfloor> < 2" by (simp add: floor_less_iff)
    then show ?thesis by simp
  qed
  have y: "1 < 1 / x" using x by (simp add: field_simps)
  have half: "1 / (x * 2) \<le> of_int (\<lceil>1 / x\<rceil> - 1)"
  proof (cases "1 / x \<le> 2")
    case True
    have "2 \<le> \<lceil>1 / x\<rceil>" using y by (simp add: le_ceiling_iff)
    moreover have "1 / (x * 2) \<le> 1" using True x by (simp add: field_simps)
    ultimately show ?thesis by (smt (verit) of_int_1 of_int_le_iff order_trans)
  next
    case False
    have "1 / (x * 2) = (1 / x) / 2" by simp
    also have "\<dots> \<le> 1 / x - 1" using False by simp
    also have "\<dots> \<le> of_int \<lceil>1 / x\<rceil> - 1" by (simp add: le_of_int_ceiling)
    finally show ?thesis by simp
  qed
  then have c: "\<lceil>1 / (x * 2)\<rceil> \<le> \<lceil>1 / x\<rceil> - 1" by (rule ceiling_le)
  have cpos: "0 < \<lceil>1 / (x * 2)\<rceil>" using x by simp
  have n1: "nat \<lfloor>x * 2\<rfloor> \<le> 1" using f1 by linarith
  have n2: "nat \<lceil>1 / (x * 2)\<rceil> < nat \<lceil>1 / x\<rceil>" using c cpos by linarith
  have n0: "nat \<lfloor>x\<rfloor> = 0" using f0 by simp
  have "nat \<lfloor>x * 2\<rfloor> + 2 * nat \<lceil>1 / (x * 2)\<rceil> < nat \<lfloor>x\<rfloor> + 2 * nat \<lceil>1 / x\<rceil>"
    using n0 n1 n2 by linarith
  then show "(x * 2, x) \<in> measure (\<lambda>x. nat \<lfloor>x\<rfloor> + 2 * nat \<lceil>1 / x\<rceil>)"
    by simp
qed

declare ilog2.simps [simp del]

definition round_double :: "rat \<Rightarrow> rat" where
  "round_double x =
     (if x = 0 then 0
      else let q = max (ilog2 \<bar>x\<bar> - 52) (- 1074)
           in sgn x * of_int (round_half_even (\<bar>x\<bar> / 2 powi q)) * 2 powi q)"

text \<open>
  The operators \<^verbatim>\<open>+\<close>, \<^verbatim>\<open>/\<close> and \<^verbatim>\<open>*\<close> on finite numbers (the divisor not zero), and the
  number that an integer of the platform becomes (the \<^verbatim>\<open>length\<close> of an array, the \<^verbatim>\<open>loaded\<close>
  and \<^verbatim>\<open>total\<close> of a progress event).
\<close>

definition js_plus :: "rat \<Rightarrow> rat \<Rightarrow> rat" where
  "js_plus a b = round_double (a + b)"

definition js_divide :: "rat \<Rightarrow> rat \<Rightarrow> rat" where
  "js_divide a b = round_double (a / b)"

definition js_times :: "rat \<Rightarrow> rat \<Rightarrow> rat" where
  "js_times a b = round_double (a * b)"

definition to_number :: "nat \<Rightarrow> rat" where
  "to_number n = round_double (of_nat n)"

subsection \<open>\<^verbatim>\<open>parseInt(string, 10)\<close>\<close>

text \<open>
  The built-in \<^verbatim>\<open>parseInt\<close> with radix 10: leading white space is dropped, then an optional
  sign, then the longest run of decimal digits is read, and the integer they denote is
  returned as a number, that is rounded to a double. \<open>None\<close> is \<^verbatim>\<open>NaN\<close>, the result when
  there is no digit. (JavaScript leaves the digits after the twentieth significant one to
  the implementation; the theorems keep the parsed length at or below \<open>2 ^ 53\<close>.)
\<close>

definition is_whitespace :: "char \<Rightarrow> bool" where
  "is_whitespace c =
     (c \<in> set [CHR 0x09, CHR 0x0A, CHR 0x0B, CHR 0x0C, CHR 0x0D, CHR 0x20, CHR 0xA0])"

definition is_digit :: "char \<Rightarrow> bool" where
  "is_digit c = (c \<in> set ''0123456789'')"

definition digit_value :: "char \<Rightarrow> nat" where
  "digit_value c = of_char c - 48"

definition parseInt :: "string \<Rightarrow> rat option" where
  "parseInt str =
     (let S = dropWhile is_whitespace str;
          sign = (if S \<noteq> [] \<and> hd S = CHR ''-'' then - 1 else 1);
          S' = (if S \<noteq> [] \<and> (hd S = CHR ''+'' \<or> hd S = CHR ''-'') then tl S else S);
          Z = takeWhile is_digit S'
      in if Z = [] then None
         else Some (round_double
                      (of_int (sign * int (foldl (\<lambda>n c. 10 * n + digit_value c) 0 Z)))))"

subsection \<open>Download\<close>

text \<open>\<^verbatim>\<open>response.arrayBuffer()\<close>: the whole body, read in one step.\<close>

definition arrayBuffer :: "Response \<Rightarrow> nat list" where
  "arrayBuffer res = (case body res of None \<Rightarrow> [] | Some stream \<Rightarrow> concat stream)"

text \<open>
  The read loop of \<^verbatim>\<open>downloadBinary\<close>. The first list is what \<^verbatim>\<open>reader.read()\<close> still has
  to deliver (\<^verbatim>\<open>done\<close> when it is empty); \<open>chunks\<close> and \<open>loaded\<close> are the local variables,
  \<open>loaded\<close> a number, and \<open>calls\<close> are the values passed to \<^verbatim>\<open>on_progress\<close> so far, in
  order. \<open>tot\<close> is the variable \<^verbatim>\<open>total\<close>, not zero where the loop runs.
\<close>

fun read_loop ::
  "rat \<Rightarrow> nat list list \<Rightarrow> nat list list \<Rightarrow> rat \<Rightarrow> rat list
     \<Rightarrow> nat list list \<times> rat \<times> rat list" where
  "read_loop tot [] chunks loaded calls = (chunks, loaded, calls)"
| "read_loop tot (v # rest) chunks loaded calls =
     read_loop tot rest (chunks @ [v]) (js_plus loaded (to_number (length v)))
       (calls @ [js_times (js_divide (js_plus loaded (to_number (length v))) tot) 100])"

text \<open>
  The loop that combines the chunks: \<^verbatim>\<open>result.set(chunk, offset); offset += chunk.length\<close>.
  \<^verbatim>\<open>set\<close> overwrites the bytes from \<^verbatim>\<open>offset\<close> on and throws a \<^verbatim>\<open>RangeError\<close> when the chunk
  does not fit.
\<close>

fun combine :: "nat list \<Rightarrow> nat \<Rightarrow> nat list list \<Rightarrow> error + nat list" where
  "combine result offset [] = Inr result"
| "combine result offset (chunk # cs) =
     (if offset + length chunk > length result then Inl RangeError
      else combine (take offset result @ chunk @ drop (offset + length chunk) result)
             (offset + length chunk) cs)"

text \<open>
  \<^verbatim>\<open>downloadBinary\<close> from the response on: the result, and the values passed to
  \<^verbatim>\<open>on_progress\<close> in order. \<^verbatim>\<open>!total\<close> holds for \<^verbatim>\<open>null\<close> (no header, or the empty string),
  for \<^verbatim>\<open>NaN\<close> and for zero. \<^verbatim>\<open>new Uint8Array(loaded)\<close> throws a \<^verbatim>\<open>RangeError\<close> for a length
  above \<open>2 ^ 53 - 1\<close>; \<open>loaded\<close> is a sum of array lengths, so it is a whole number.
\<close>

definition read_response :: "Response \<Rightarrow> (error + nat list) \<times> rat list" where
  "read_response resp =
     (if \<not> ok resp then
        (Inl (Error (''Download failed: '' @ show_nat (status resp))), [])
      else
        let contentLength = content_length resp;
            tot = (case contentLength of
                     None \<Rightarrow> None
                   | Some c \<Rightarrow> if c = [] then None else parseInt c)
        in case tot of
             None \<Rightarrow> (Inr (arrayBuffer resp), [])
           | Some t \<Rightarrow>
               if t = 0 then (Inr (arrayBuffer resp), [])
               else
                 (case body resp of
                    None \<Rightarrow> (Inr (arrayBuffer resp), [])
                  | Some stream \<Rightarrow>
                      (case read_loop t stream [] 0 [] of
                         (chunks, loaded, calls) \<Rightarrow>
                           (if loaded > 2 ^ 53 - 1 then Inl RangeError
                            else combine (replicate (nat \<lfloor>loaded\<rfloor>) 0) 0 chunks,
                            calls))))"

text \<open>\<^verbatim>\<open>DataEp.downloadBinary\<close>\<close>

definition downloadBinary ::
  "'s fetch \<Rightarrow> string \<Rightarrow> (string \<times> string) list \<Rightarrow> 's
     \<Rightarrow> ((error + nat list) \<times> rat list) \<times> 's" where
  "downloadBinary fetch u hs s =
     (case fetch \<lparr> http_method = ''GET'', url = u, headers = hs, req_body = None \<rparr> s of
        (Inl msg, s') \<Rightarrow> ((Inl (TypeError msg), []), s')
      | (Inr resp, s') \<Rightarrow> (read_response resp, s'))"

subsection \<open>Upload\<close>

record DataUploadResponse =
  post_url :: string
  post_header :: "(string \<times> string) list"
  unvalidated_file_handle :: string

text \<open>\<^verbatim>\<open>DataUploadRequestSchema.parse({size: file.size})\<close>: the size is a positive integer.\<close>

definition DataUploadRequestSchema :: "nat \<Rightarrow> json option" where
  "DataUploadRequestSchema n =
     (if 0 < n then Some (JObject [(''size'', JNumber (of_nat n))]) else None)"

text \<open>The form that both upload strategies send: the fields of \<^verbatim>\<open>post_header\<close>, then the file.\<close>

definition formData :: "DataUploadResponse \<Rightarrow> File \<Rightarrow> body_init" where
  "formData resp file = FormData (post_header resp) file"

text \<open>
  \<^verbatim>\<open>uploadWithFetch\<close>: one \<^verbatim>\<open>POST\<close> of the form to \<^verbatim>\<open>post_url\<close>; a failure is reported as in
  \<open>FetchWrapper\<close>, with the message \<^verbatim>\<open>S3 upload failed! status: ...\<close>.
\<close>

definition uploadWithFetch ::
  "'s fetch \<Rightarrow> File \<Rightarrow> DataUploadResponse \<Rightarrow> 's \<Rightarrow> (error + DataUploadResponse) \<times> 's" where
  "uploadWithFetch fetch file resp s =
     (case fetch \<lparr> http_method = ''POST'', url = post_url resp, headers = [],
                   req_body = Some (formData resp file) \<rparr> s of
        (Inl msg, s') \<Rightarrow> (Inl (TypeError msg), s')
      | (Inr uploadResponse, s') \<Rightarrow>
          if ok uploadResponse then (Inr resp, s')
          else
            (let failed = Error (''S3 upload failed! status: '' @ show_nat (status uploadResponse)
                                   @ '' '' @ statusText uploadResponse)
             in case json uploadResponse of
                  None \<Rightarrow> (Inl failed, s')
                | Some errorData \<Rightarrow>
                    (case HttpErrorResponseSchema errorData of
                       None \<Rightarrow> (Inl failed, s')
                     | Some e \<Rightarrow> (Inl (fromHttpResponse e), s'))))"

text \<open>
  \<^verbatim>\<open>uploadWithXHR\<close>. The browser dispatches events to the handlers that the function
  installs: \<^verbatim>\<open>xhr.upload.onprogress\<close> (with \<^verbatim>\<open>lengthComputable\<close>, \<^verbatim>\<open>loaded\<close>, \<^verbatim>\<open>total\<close>),
  \<^verbatim>\<open>xhr.onload\<close> and \<^verbatim>\<open>xhr.onerror\<close> (which read \<^verbatim>\<open>xhr.status\<close> and \<^verbatim>\<open>xhr.statusText\<close>) and
  \<^verbatim>\<open>xhr.onloadend\<close>; an abort or a timeout has no handler. The state of the call is the list
  of values passed to \<^verbatim>\<open>on_progress\<close> and the state of the promise: \<open>None\<close> while it is
  pending, and settled by the first \<^verbatim>\<open>resolve\<close> or \<^verbatim>\<open>reject\<close> only.
\<close>

datatype xhr_event =
    UploadProgress bool nat nat
  | Load nat string
  | ErrorEvent nat string
  | Abort
  | Timeout
  | LoadEnd

record xhr_state =
  calls :: "rat list"
  settled :: "(error + DataUploadResponse) option"

definition settle :: "error + DataUploadResponse \<Rightarrow> xhr_state \<Rightarrow> xhr_state" where
  "settle v st = (case settled st of None \<Rightarrow> st\<lparr>settled := Some v\<rparr> | Some _ \<Rightarrow> st)"

text \<open>
  \<^verbatim>\<open>const percent = (event.loaded / event.total) * 100\<close> in \<^verbatim>\<open>onprogress\<close>, for a total
  other than zero. When \<^verbatim>\<open>total\<close> is zero the quotient is \<^verbatim>\<open>NaN\<close> or \<^verbatim>\<open>Infinity\<close>, and neither
  is below 100.
\<close>

definition upload_percent :: "nat \<Rightarrow> nat \<Rightarrow> rat" where
  "upload_percent loaded tot = js_times (js_divide (to_number loaded) (to_number tot)) 100"

fun xhr_handler :: "DataUploadResponse \<Rightarrow> xhr_state \<Rightarrow> xhr_event \<Rightarrow> xhr_state" where
  "xhr_handler resp st (UploadProgress lengthComputable loaded tot) =
     (if lengthComputable \<and> tot \<noteq> 0 \<and> upload_percent loaded tot < 100
      then st\<lparr>calls := calls st @ [upload_percent loaded tot]\<rparr>
      else st)"
| "xhr_handler resp st (Load xhr_status xhr_statusText) =
     (if xhr_status \<ge> 200 \<and> xhr_status < 300 then settle (Inr resp) st
      else settle (Inl (Error (''S3 upload failed! status: '' @ show_nat xhr_status
                                 @ '' '' @ xhr_statusText))) st)"
| "xhr_handler resp st (ErrorEvent xhr_status xhr_statusText) =
     settle (Inl (Error (''S3 upload failed! status: '' @ show_nat xhr_status
                           @ '' '' @ xhr_statusText))) st"
| "xhr_handler resp st Abort = st"
| "xhr_handler resp st Timeout = st"
| "xhr_handler resp st LoadEnd = st\<lparr>calls := calls st @ [100]\<rparr>"

definition uploadWithXHR ::
  "DataUploadResponse \<Rightarrow> xhr_event list \<Rightarrow> (error + DataUploadResponse) option \<times> rat list" where
  "uploadWithXHR resp events =
     (let st = foldl (xhr_handler resp) \<lparr> calls = [], settled = None \<rparr> events
      in (settled st, calls st))"

text \<open>
  The events that a browser dispatches to the handlers of \<open>uploadWithXHR\<close> for one upload,
  as the XMLHttpRequest standard prescribes them: a progress event after each part of the
  request body that it has transmitted, with the number of bytes transmitted so far as
  \<^verbatim>\<open>loaded\<close>, the length of the request body as \<^verbatim>\<open>total\<close> and \<^verbatim>\<open>lengthComputable\<close> set when
  that length is not zero; then the event that ends the request (\<^verbatim>\<open>load\<close>, \<^verbatim>\<open>error\<close>,
  \<^verbatim>\<open>abort\<close> or \<^verbatim>\<open>timeout\<close>); then \<^verbatim>\<open>loadend\<close>.
\<close>

fun transmitted :: "nat \<Rightarrow> nat list \<Rightarrow> nat list" where
  "transmitted n [] = []"
| "transmitted n (part # parts) = (n + part) # transmitted (n + part) parts"

definition dispatched_events :: "nat \<Rightarrow> nat list \<Rightarrow> xhr_event \<Rightarrow> xhr_event list" where
  "dispatched_events tot parts final =
     map (\<lambda>l. UploadProgress (tot \<noteq> 0) l tot) (transmitted 0 parts) @ [final, LoadEnd]"

text \<open>
  Where the SDK runs: a browser, with \<^verbatim>\<open>XMLHttpRequest\<close>, given by the upload that it performs
  (the length of the request body, the lengths of the parts in which it transmits the body,
  and the event that ends the request), or an environment without \<^verbatim>\<open>XMLHttpRequest\<close>
  (Node.js).
\<close>

datatype environment = Browser nat "nat list" xhr_event | Node

text \<open>
  \<^verbatim>\<open>DataEp.upload\<close>. The result is \<open>None\<close> when the promise never settles, and the list is
  the values passed to \<^verbatim>\<open>on_progress\<close>. In the fallback \<^verbatim>\<open>on_progress(100)\<close> is called once
  the upload has been started, whatever its outcome. \<^verbatim>\<open>DataUploadResponseSchema\<close> is an
  argument: the schema of the file handle (\<^verbatim>\<open>models/misc\<close>) is not among the sources.
\<close>

definition upload ::
  "'s fetch \<Rightarrow> FetchWrapper \<Rightarrow> DataUploadResponse schema \<Rightarrow> environment \<Rightarrow> File \<Rightarrow> 's
     \<Rightarrow> ((error + DataUploadResponse) option \<times> rat list) \<times> 's" where
  "upload fetch w DataUploadResponseSchema env file s =
     (case DataUploadRequestSchema (file_size file) of
        None \<Rightarrow> ((Some (Inl ZodError), []), s)
      | Some req \<Rightarrow>
          (case post fetch w ''/data/upload'' req DataUploadResponseSchema s of
             (Inl e, s') \<Rightarrow> ((Some (Inl e), []), s')
           | (Inr resp, s') \<Rightarrow>
               (case env of
                  Browser tot parts final \<Rightarrow>
                    (uploadWithXHR resp (dispatched_events tot parts final), s')
                | Node \<Rightarrow>
                    (case uploadWithFetch fetch file resp s' of
                       (res, s'') \<Rightarrow> ((Some res, [100]), s'')))))"

text \<open>
  Example responses of a download: with no advertised length, with a length that is half of
  what the body delivers (as when the length counts a compressed body), and with the exact
  length of a body that arrives in three chunks of one byte.
\<close>

definition no_length_download :: Response where
  "no_length_download =
     \<lparr> status = 200, statusText = ''OK'', content_length = None,
       body = Some [[1, 2], [3]], json = None \<rparr>"

definition short_length_download :: Response where
  "short_length_download =
     \<lparr> status = 200, statusText = ''OK'', content_length = Some ''2'',
       body = Some [[1, 2], [3, 4]], json = None \<rparr>"

definition exact_length_download :: Response where
  "exact_length_download =
     \<lparr> status = 200, statusText = ''OK'', content_length = Some ''3'',
       body = Some [[7], [8], [9]], json = None \<rparr>"

subsection \<open>Progress sequences\<close>

text \<open>
  What the spec asks of the values passed to a progress callback during a completed
  transfer: they never decrease, each lies between 0 and 100, and the last one is 100.
\<close>

definition complete_progress :: "rat list \<Rightarrow> bool" where
  "complete_progress cs =
     (sorted cs \<and> list_all (\<lambda>p. 0 \<le> p \<and> p \<le> 100) cs \<and> cs \<noteq> [] \<and> last cs = 100)"

definition example_upload :: DataUploadResponse where
  "example_upload =
     \<lparr> post_url = ''https://bucket.example/upload'', post_header = [(''key'', ''k1'')],
       unvalidated_file_handle = ''file-1'' \<rparr>"

text \<open>The body that describes \<open>example_upload\<close>, and a schema that reads it.\<close>

definition example_upload_json :: json where
  "example_upload_json =
     JObject [(''post_url'', JString ''https://bucket.example/upload''),
              (''post_header'', JObject [(''key'', JString ''k1'')]),
              (''unvalidated_file_handle'', JString ''file-1'')]"

definition example_upload_schema :: "DataUploadResponse schema" where
  "example_upload_schema j = (if j = example_upload_json then Some example_upload else None)"

section \<open>\<^verbatim>\<open>Flow\<close> (\<^verbatim>\<open>MaraDocsClient/flow.ts\<close>)\<close>

subsection \<open>Asynchronous calls\<close>

text \<open>
  An \<^verbatim>\<open>async\<close> call is a step of the world \<open>'s\<close> that returns a value or throws. \<open>await m k\<close>
  is \<^verbatim>\<open>const a = await m; k(a)\<close>: an exception of \<open>m\<close> ends the function, as no call of
  \<^verbatim>\<open>flow.ts\<close> stands in a \<^verbatim>\<open>try\<close> block.
\<close>

type_synonym ('s, 'a) async = "'s \<Rightarrow> (error + 'a) \<times> 's"

definition return :: "'a \<Rightarrow> ('s, 'a) async" where
  "return a s = (Inr a, s)"

definition throw :: "error \<Rightarrow> ('s, 'a) async" where
  "throw e s = (Inl e, s)"

definition await :: "('s, 'a) async \<Rightarrow> ('a \<Rightarrow> ('s, 'b) async) \<Rightarrow> ('s, 'b) async" where
  "await m k s = (case m s of (Inl e, s') \<Rightarrow> (Inl e, s') | (Inr a, s') \<Rightarrow> k a s')"

subsection \<open>Requests, responses and endpoints\<close>

text \<open>
  The responses that the flows read. The four responses \<^verbatim>\<open>{pdf_handle}\<close> (of image OCR,
  compose, PDF OCR and optimize) share one record, and a handle is a string. The request
  \<^verbatim>\<open>{pdfs: [{pdf_handle}, ...]}\<close> of compose is given by its list of handles.
\<close>

record ImgFindDocumentsQuadrilateral =
  quadrilateral :: Quadrilateral
  confidence :: rat

record ImgFindDocumentsResponse =
  documents :: "ImgFindDocumentsQuadrilateral list"

record ImgExtractQuadrilateralResponse =
  img_handle :: string

record PdfHandleResponse =
  pdf_handle :: string

record PdfOrientationResponse =
  orientations :: "(nat \<times> rat) list"
  rotated_pdf_handle :: string

text \<open>
  The endpoint objects that \<^verbatim>\<open>Flow\<close> is constructed with, by the methods it calls. Each
  method submits a job and polls for its result; here it is one asynchronous call with the
  fields of its request as arguments. \<^verbatim>\<open>data.upload\<close> takes the progress callback \<open>'p\<close>
  as it is. The validation responses \<open>'iv\<close> and \<open>'pv\<close> are read only by \<^verbatim>\<open>okImg\<close> and
  \<^verbatim>\<open>okPdf\<close>, which \<^verbatim>\<open>flow.ts\<close> imports from \<^verbatim>\<open>models/img\<close> and \<^verbatim>\<open>models/pdf\<close>; their definitions
  are not among the sources, so they are components of the model like the endpoints.
\<close>

record ('s, 'p) DataEp =
  data_upload :: "File \<Rightarrow> 'p option \<Rightarrow> ('s, DataUploadResponse) async"

record ('s, 'iv, 'o) ImgEp =
  img_validate :: "string \<Rightarrow> ('s, 'iv) async"
  findDocuments :: "string \<Rightarrow> ('s, ImgFindDocumentsResponse) async"
  extractQuadrilateral :: "string \<Rightarrow> Quadrilateral \<Rightarrow> ('s, ImgExtractQuadrilateralResponse) async"
  img_ocrToPdf :: "string \<Rightarrow> 'o option \<Rightarrow> ('s, PdfHandleResponse) async"

record ('s, 'pv) PdfEp =
  pdf_validate :: "string \<Rightarrow> string option \<Rightarrow> ('s, 'pv) async"
  compose :: "string list \<Rightarrow> ('s, PdfHandleResponse) async"
  orientation :: "string \<Rightarrow> ('s, PdfOrientationResponse) async"
  pdf_ocrToPdf :: "string \<Rightarrow> ('s, PdfHandleResponse) async"
  optimize :: "string \<Rightarrow> ('s, PdfHandleResponse) async"

record ('s, 'p, 'iv, 'pv, 'o) Flow =
  data :: "('s, 'p) DataEp"
  img :: "('s, 'iv, 'o) ImgEp"
  pdf :: "('s, 'pv) PdfEp"
  okImg :: "'iv \<Rightarrow> error + string"
  okPdf :: "'pv \<Rightarrow> error + string"

text \<open>The options of the two flows; \<open>None\<close> is a field left \<^verbatim>\<open>undefined\<close>.\<close>

record ('p, 'o) OcrImgOptions =
  extractDocument :: "bool option"
  onProgress :: "'p option"
  pdfOptions :: "'o option"

record 'p OcrPdfOptions =
  pdf_onProgress :: "'p option"
  password :: "string option"

subsection \<open>\<^verbatim>\<open>toFile\<close>\<close>

record Blob =
  blob_size :: nat
  blob_type :: string

datatype FlowInput = InputFile File | InputBlob Blob | InputBuffer "nat list"

definition toFile :: "FlowInput \<Rightarrow> string \<Rightarrow> string \<Rightarrow> File" where
  "toFile input filename mimeType =
     (case input of
        InputFile f \<Rightarrow> f
      | InputBlob b \<Rightarrow> \<lparr> file_name = filename, file_size = blob_size b, file_type = mimeType \<rparr>
      | InputBuffer bytes \<Rightarrow>
          \<lparr> file_name = filename, file_size = length bytes, file_type = mimeType \<rparr>)"

subsection \<open>The image flow\<close>

text \<open>
  The two \<^verbatim>\<open>for ... of\<close> loops of \<open>ocrImgHandle\<close>. The last argument is the array that the
  loop pushes to: \<^verbatim>\<open>imgHandles\<close> in the first loop, \<^verbatim>\<open>pdfHandles\<close> in the second.
\<close>

fun extract_loop ::
  "('s, 'iv, 'o) ImgEp \<Rightarrow> string \<Rightarrow> ImgFindDocumentsQuadrilateral list \<Rightarrow> string list
     \<Rightarrow> ('s, string list) async" where
  "extract_loop ep imgHandle [] imgHandles = return imgHandles"
| "extract_loop ep imgHandle (doc # rest) imgHandles =
     await (extractQuadrilateral ep imgHandle (quadrilateral doc))
       (\<lambda>extracted. extract_loop ep imgHandle rest (imgHandles @ [img_handle extracted]))"

fun convert_loop ::
  "('s, 'iv, 'o) ImgEp \<Rightarrow> 'o option \<Rightarrow> string list \<Rightarrow> string list \<Rightarrow> ('s, string list) async" where
  "convert_loop ep opts [] pdfHandles = return pdfHandles"
| "convert_loop ep opts (imgHandle # rest) pdfHandles =
     await (img_ocrToPdf ep imgHandle opts)
       (\<lambda>pdfHandle. convert_loop ep opts rest (pdfHandles @ [pdf_handle pdfHandle]))"

text \<open>\<^verbatim>\<open>Flow.ocrImgHandle\<close>; \<^verbatim>\<open>extractDocument\<close> defaults to \<^verbatim>\<open>true\<close>.\<close>

definition ocrImgHandle ::
  "('s, 'p, 'iv, 'pv, 'o) Flow \<Rightarrow> string \<Rightarrow> ('p, 'o) OcrImgOptions \<Rightarrow> ('s, string) async" where
  "ocrImgHandle this imgHandle options =
     await
       (if (case extractDocument options of None \<Rightarrow> True | Some b \<Rightarrow> b) then
          await (findDocuments (img this) imgHandle)
            (\<lambda>docs. extract_loop (img this) imgHandle (documents docs) [])
        else return [])
       (\<lambda>imgHandles.
          await
            (convert_loop (img this) (pdfOptions options)
               (if length imgHandles = 0 then imgHandles @ [imgHandle] else imgHandles) [])
            (\<lambda>pdfHandles.
               await (compose (pdf this) pdfHandles)
                 (\<lambda>combinedPdf.
                    await (orientation (pdf this) (pdf_handle combinedPdf))
                      (\<lambda>oriented.
                         await (pdf_ocrToPdf (pdf this) (rotated_pdf_handle oriented))
                           (\<lambda>ocrPdf.
                              await (optimize (pdf this) (pdf_handle ocrPdf))
                                (\<lambda>optimizedPdf. return (pdf_handle optimizedPdf)))))))"

text \<open>\<^verbatim>\<open>Flow.ocrImg\<close>\<close>

definition ocrImg ::
  "('s, 'p, 'iv, 'pv, 'o) Flow \<Rightarrow> FlowInput \<Rightarrow> ('p, 'o) OcrImgOptions \<Rightarrow> ('s, string) async" where
  "ocrImg this input options =
     await (data_upload (data this) (toFile input ''image.jpg'' ''image/jpeg'') (onProgress options))
       (\<lambda>uploaded.
          await (img_validate (img this) (unvalidated_file_handle uploaded))
            (\<lambda>validated.
               case okImg this validated of
                 Inl e \<Rightarrow> throw e
               | Inr imgHandle \<Rightarrow> ocrImgHandle this imgHandle options))"

subsection \<open>The PDF flow\<close>

text \<open>\<^verbatim>\<open>Flow.ocrPdfHandle\<close>; its options are not read.\<close>

definition ocrPdfHandle ::
  "('s, 'p, 'iv, 'pv, 'o) Flow \<Rightarrow> string \<Rightarrow> 'p OcrPdfOptions \<Rightarrow> ('s, string) async" where
  "ocrPdfHandle this pdfHandle options =
     await (orientation (pdf this) pdfHandle)
       (\<lambda>oriented.
          await (pdf_ocrToPdf (pdf this) (rotated_pdf_handle oriented))
            (\<lambda>ocr.
               await (optimize (pdf this) (pdf_handle ocr))
                 (\<lambda>optimized. return (pdf_handle optimized))))"

text \<open>\<^verbatim>\<open>Flow.ocrPdf\<close>\<close>

definition ocrPdf ::
  "('s, 'p, 'iv, 'pv, 'o) Flow \<Rightarrow> FlowInput \<Rightarrow> 'p OcrPdfOptions \<Rightarrow> ('s, string) async" where
  "ocrPdf this input options =
     await (data_upload (data this) (toFile input ''document.pdf'' ''application/pdf'')
              (pdf_onProgress options))
       (\<lambda>uploaded.
          await (pdf_validate (pdf this) (unvalidated_file_handle uploaded) (password options))
            (\<lambda>validated.
               case okPdf this validated of
                 Inl e \<Rightarrow> throw e
               | Inr pdfHandle \<Rightarrow> ocrPdfHandle this pdfHandle options))"

subsection \<open>The stages of the pipelines, as the spec words them\<close>

text \<open>
  \<open>in_order f xs\<close> submits the elements of \<open>xs\<close> one after the other, in list order, and
  returns one result per element, in the same order; the first failure ends it.
\<close>

fun in_order :: "('a \<Rightarrow> ('s, 'b) async) \<Rightarrow> 'a list \<Rightarrow> ('s, 'b list) async" where
  "in_order f [] = return []"
| "in_order f (x # xs) = await (f x) (\<lambda>y. await (in_order f xs) (\<lambda>ys. return (y # ys)))"

text \<open>Fan-in: the PDF handles are composed into a single PDF, in list order.\<close>

definition composed :: "('s, 'p, 'iv, 'pv, 'o) Flow \<Rightarrow> string list \<Rightarrow> ('s, string) async" where
  "composed this pdfHandles =
     await (compose (pdf this) pdfHandles) (\<lambda>combined. return (pdf_handle combined))"

text \<open>
  The last three stages of both pipelines: orientation correction of a PDF, OCR of the
  rotated handle, optimization of the OCR'd handle, whose handle is the output.
\<close>

definition oriented_ocr_optimized ::
  "('s, 'p, 'iv, 'pv, 'o) Flow \<Rightarrow> string \<Rightarrow> ('s, string) async" where
  "oriented_ocr_optimized this pdfHandle =
     await (orientation (pdf this) pdfHandle)
       (\<lambda>r. await (pdf_ocrToPdf (pdf this) (rotated_pdf_handle r))
          (\<lambda>r'. await (optimize (pdf this) (pdf_handle r'))
             (\<lambda>r''. return (pdf_handle r''))))"

text \<open>
  The conversion stage on an ordered list of images, then fan-in and the last three stages:
  one PDF handle per image, order-preserving, composed in that order.
\<close>

definition converted_composed_finished ::
  "('s, 'p, 'iv, 'pv, 'o) Flow \<Rightarrow> 'o option \<Rightarrow> string list \<Rightarrow> ('s, string) async" where
  "converted_composed_finished this opts imgHandles =
     await (in_order (\<lambda>i. img_ocrToPdf (img this) i opts) imgHandles)
       (\<lambda>pdfs. await (composed this (map pdf_handle pdfs)) (oriented_ocr_optimized this))"

text \<open>Steps 1 and 2 of the two pipelines: upload, validate, unwrap.\<close>

definition upload_validate_okImg ::
  "('s, 'p, 'iv, 'pv, 'o) Flow \<Rightarrow> FlowInput \<Rightarrow> ('p, 'o) OcrImgOptions \<Rightarrow> ('s, string) async" where
  "upload_validate_okImg this input options s =
     (case data_upload (data this) (toFile input ''image.jpg'' ''image/jpeg'') (onProgress options) s of
        (Inl e, s1) \<Rightarrow> (Inl e, s1)
      | (Inr uploaded, s1) \<Rightarrow>
          (case img_validate (img this) (unvalidated_file_handle uploaded) s1 of
             (Inl e, s2) \<Rightarrow> (Inl e, s2)
           | (Inr validated, s2) \<Rightarrow> (okImg this validated, s2)))"

definition upload_validate_okPdf ::
  "('s, 'p, 'iv, 'pv, 'o) Flow \<Rightarrow> FlowInput \<Rightarrow> 'p OcrPdfOptions \<Rightarrow> ('s, string) async" where
  "upload_validate_okPdf this input options s =
     (case data_upload (data this) (toFile input ''document.pdf'' ''application/pdf'')
             (pdf_onProgress options) s of
        (Inl e, s1) \<Rightarrow> (Inl e, s1)
      | (Inr uploaded, s1) \<Rightarrow>
          (case pdf_validate (pdf this) (unvalidated_file_handle uploaded) (password options) s1 of
             (Inl e, s2) \<Rightarrow> (Inl e, s2)
           | (Inr validated, s2) \<Rightarrow> (okPdf this validated, s2)))"

subsection \<open>An example service that records its calls\<close>

text \<open>
  The state of the example service is the list of the calls it has received. Every call
  succeeds with a handle that names what was asked, except document detection, whose
  outcome is the parameter of the service. Validation responses are the validated handle
  itself.
\<close>

datatype call =
    Upload File
  | ImgValidate string
  | PdfValidate string "string option"
  | FindDocuments string
  | ExtractQuadrilateral string Quadrilateral
  | ImgOcrToPdf string
  | Compose "string list"
  | Orientation string
  | PdfOcrToPdf string
  | Optimize string

definition recorded :: "call \<Rightarrow> error + 'a \<Rightarrow> (call list, 'a) async" where
  "recorded c r calls_so_far = (r, calls_so_far @ [c])"

definition example_flow ::
  "error + ImgFindDocumentsQuadrilateral list \<Rightarrow> (call list, unit, string, string, unit) Flow" where
  "example_flow detection =
     \<lparr> data = \<lparr> data_upload = (\<lambda>f p. recorded (Upload f)
                 (Inr \<lparr> post_url = ''https://bucket.example/upload'', post_header = [],
                        unvalidated_file_handle = ''raw:'' @ file_name f \<rparr>)) \<rparr>,
       img = \<lparr> img_validate = (\<lambda>u. recorded (ImgValidate u) (Inr (''img:'' @ u))),
               findDocuments = (\<lambda>h. recorded (FindDocuments h)
                 (case detection of Inl e \<Rightarrow> Inl e | Inr ds \<Rightarrow> Inr \<lparr> documents = ds \<rparr>)),
               extractQuadrilateral = (\<lambda>h q cs. recorded (ExtractQuadrilateral h q)
                 (Inr \<lparr> img_handle = h @ ''#'' @ show_nat (length cs) \<rparr>) cs),
               img_ocrToPdf = (\<lambda>h opts. recorded (ImgOcrToPdf h)
                 (Inr \<lparr> pdf_handle = ''pdf('' @ h @ '')'' \<rparr>)) \<rparr>,
       pdf = \<lparr> pdf_validate = (\<lambda>u pw. recorded (PdfValidate u pw) (Inr (''pdf:'' @ u))),
               compose = (\<lambda>hs. recorded (Compose hs) (Inr \<lparr> pdf_handle = ''composed'' \<rparr>)),
               orientation = (\<lambda>h. recorded (Orientation h)
                 (Inr \<lparr> orientations = [], rotated_pdf_handle = ''rot('' @ h @ '')'' \<rparr>)),
               pdf_ocrToPdf = (\<lambda>h. recorded (PdfOcrToPdf h)
                 (Inr \<lparr> pdf_handle = ''ocr('' @ h @ '')'' \<rparr>)),
               optimize = (\<lambda>h. recorded (Optimize h)
                 (Inr \<lparr> pdf_handle = ''opt('' @ h @ '')'' \<rparr>)) \<rparr>,
       okImg = Inr,
       okPdf = Inr \<rparr>"

text \<open>Two quadrilaterals, the default options of the image flow, and options that disable
  document extraction.\<close>

definition left_half :: Quadrilateral where
  "left_half =
     \<lparr> top_left = \<lparr>pos_x = 0, pos_y = 0\<rparr>, top_right = \<lparr>pos_x = 1/2, pos_y = 0\<rparr>,
       bottom_right = \<lparr>pos_x = 1/2, pos_y = 1\<rparr>, bottom_left = \<lparr>pos_x = 0, pos_y = 1\<rparr> \<rparr>"

definition right_half :: Quadrilateral where
  "right_half =
     \<lparr> top_left = \<lparr>pos_x = 1/2, pos_y = 0\<rparr>, top_right = \<lparr>pos_x = 1, pos_y = 0\<rparr>,
       bottom_right = \<lparr>pos_x = 1, pos_y = 1\<rparr>, bottom_left = \<lparr>pos_x = 1/2, pos_y = 1\<rparr> \<rparr>"

definition default_options :: "(unit, unit) OcrImgOptions" where
  "default_options = \<lparr> extractDocument = None, onProgress = None, pdfOptions = None \<rparr>"

definition no_extraction :: "(unit, unit) OcrImgOptions" where
  "no_extraction = \<lparr> extractDocument = Some False, onProgress = None, pdfOptions = None \<rparr>"

definition two_documents :: "ImgFindDocumentsQuadrilateral list" where
  "two_documents = [\<lparr> quadrilateral = left_half, confidence = 9/10 \<rparr>,
                    \<lparr> quadrilateral = right_half, confidence = 4/5 \<rparr>]"

definition detection_failed :: error where
  "detection_failed =
     ApiErrorException 500 \<lparr> code = 0, name = ''INTERNAL_ERROR'', message = ''detection failed'' \<rparr>"

section \<open>Properties of \<open>fromUnsorted\<close>\<close>

lemma two_elems: "length xs = 2 \<Longrightarrow> xs = [xs ! 0, xs ! 1]"
  by (cases xs; cases "tl xs") auto

lemma sorted_pair_nth:
  assumes "length xs = 2"
  shows "f (sort_key f xs ! 0) \<le> f (sort_key f xs ! 1)"
proof -
  have len: "length (sort_key f xs) = 2" using assms by simp
  have "sorted (map f (sort_key f xs))" by (rule sorted_sort_key)
  moreover have "sort_key f xs = [sort_key f xs ! 0, sort_key f xs ! 1]"
    by (rule two_elems [OF len])
  ultimately have "sorted (map f [sort_key f xs ! 0, sort_key f xs ! 1])" by simp
  then show ?thesis by simp
qed

lemma sort_pair_nth_mem:
  assumes "length xs = 2" and "i < 2"
  shows "sort_key f xs ! i \<in> set xs"
proof -
  have "sort_key f xs ! i \<in> set (sort_key f xs)"
    using assms by (intro nth_mem) simp
  then show ?thesis by simp
qed

lemma sorted_take_le_drop:
  assumes "sorted (map f ys)" and "a \<in> set (take n ys)" and "b \<in> set (drop n ys)"
  shows "f a \<le> f b"
proof -
  have "sorted (map f (take n ys) @ map f (drop n ys))"
    using assms(1) by (simp flip: map_append)
  then show ?thesis
    using assms(2,3) by (auto simp: sorted_append)
qed

lemma mset_sort_pair:
  assumes "length xs = 2"
  shows "{#sort_key f xs ! 0, sort_key f xs ! 1#} = mset xs"
proof -
  have len: "length (sort_key f xs) = 2" using assms by simp
  have "mset [sort_key f xs ! 0, sort_key f xs ! 1] = mset (sort_key f xs)"
    using two_elems [OF len] by simp
  then show ?thesis by simp
qed

text \<open>
  Claim C10. \<open>fromUnsorted\<close> throws for every input list whose length is not exactly 4; for
  every list of exactly 4 points it returns a quadrilateral whose four corner fields are, as
  a multiset, exactly the four input points.
\<close>

theorem fromUnsorted_reorders:
  "(length points \<noteq> 4 \<longrightarrow>
      fromUnsorted points = Inl (Error ''Quadrilateral must have 4 points'')) \<and>
   (length points = 4 \<longrightarrow>
      (\<exists>q. fromUnsorted points = Inr q \<and> mset (corners q) = mset points))"
proof (intro conjI impI)
  assume "length points \<noteq> 4"
  then show "fromUnsorted points = Inl (Error ''Quadrilateral must have 4 points'')"
    by (simp add: fromUnsorted_def)
next
  assume len: "length points = 4"
  define s where "s = sort_key pos_y points"
  have ls: "length s = 4" using len by (simp add: s_def)
  have lt: "length (take 2 s) = 2" and ld: "length (drop 2 s) = 2"
    using ls by simp_all
  let ?q = "\<lparr> top_left = sort_key pos_x (take 2 s) ! 0,
               top_right = sort_key pos_x (take 2 s) ! 1,
               bottom_right = sort_key pos_x (drop 2 s) ! 1,
               bottom_left = sort_key pos_x (drop 2 s) ! 0 \<rparr>"
  have res: "fromUnsorted points = Inr ?q"
    using len by (simp add: fromUnsorted_def s_def Let_def)
  have "mset (corners ?q) =
        {#sort_key pos_x (take 2 s) ! 0, sort_key pos_x (take 2 s) ! 1#} +
        {#sort_key pos_x (drop 2 s) ! 0, sort_key pos_x (drop 2 s) ! 1#}"
    by (simp add: corners_def)
  also have "\<dots> = mset (take 2 s) + mset (drop 2 s)"
    by (simp only: mset_sort_pair [OF lt] mset_sort_pair [OF ld])
  also have "\<dots> = mset s"
    by (simp flip: mset_append)
  also have "\<dots> = mset points"
    by (simp add: s_def)
  finally have "mset (corners ?q) = mset points" .
  with res show "\<exists>q. fromUnsorted points = Inr q \<and> mset (corners q) = mset points"
    by blast
qed

theorem fromUnsorted_reorders_witness:
  "length [\<lparr>pos_x = 0, pos_y = 0\<rparr>, \<lparr>pos_x = 1, pos_y = 1\<rparr>, \<lparr>pos_x = 1/2, pos_y = 0\<rparr>] \<noteq> 4 \<and>
   fromUnsorted [\<lparr>pos_x = 0, pos_y = 0\<rparr>, \<lparr>pos_x = 1, pos_y = 1\<rparr>, \<lparr>pos_x = 1/2, pos_y = 0\<rparr>]
     = Inl (Error ''Quadrilateral must have 4 points'') \<and>
   length [\<lparr>pos_x = 1, pos_y = 1\<rparr>, \<lparr>pos_x = 1/2, pos_y = 0\<rparr>,
           \<lparr>pos_x = 0, pos_y = 3/4\<rparr>, \<lparr>pos_x = 0, pos_y = 1/4\<rparr>] = 4 \<and>
   (\<exists>q. fromUnsorted [\<lparr>pos_x = 1, pos_y = 1\<rparr>, \<lparr>pos_x = 1/2, pos_y = 0\<rparr>,
                       \<lparr>pos_x = 0, pos_y = 3/4\<rparr>, \<lparr>pos_x = 0, pos_y = 1/4\<rparr>] = Inr q \<and>
        mset (corners q) = mset [\<lparr>pos_x = 1, pos_y = 1\<rparr>, \<lparr>pos_x = 1/2, pos_y = 0\<rparr>,
                                 \<lparr>pos_x = 0, pos_y = 3/4\<rparr>, \<lparr>pos_x = 0, pos_y = 1/4\<rparr>])"
  using fromUnsorted_reorders
          [of "[\<lparr>pos_x = 0, pos_y = 0\<rparr>, \<lparr>pos_x = 1, pos_y = 1\<rparr>, \<lparr>pos_x = 1/2, pos_y = 0\<rparr>]"]
        fromUnsorted_reorders
          [of "[\<lparr>pos_x = 1, pos_y = 1\<rparr>, \<lparr>pos_x = 1/2, pos_y = 0\<rparr>,
                \<lparr>pos_x = 0, pos_y = 3/4\<rparr>, \<lparr>pos_x = 0, pos_y = 1/4\<rparr>]"]
  by simp

text \<open>
  Claim C6. For four points with coordinates in [0, 1], given in any order (any list with
  the same multiset of points, so each of the 24 permutations), \<open>fromUnsorted\<close> returns a
  quadrilateral that satisfies the ordering invariant of \<^verbatim>\<open>QuadrilateralSchema\<close>.
\<close>

theorem fromUnsorted_ordering_invariant:
  assumes "length points = 4"
    and "\<forall>p \<in> set points. RelativePositionSchema p"
    and "mset perm = mset points"
  shows "\<exists>q. fromUnsorted perm = Inr q \<and> QuadrilateralSchema_refine q"
proof -
  have len: "length perm = 4"
    using assms(1,3) by (metis size_mset)
  define s where "s = sort_key pos_y perm"
  have ls: "length s = 4" using len by (simp add: s_def)
  have lt: "length (take 2 s) = 2" and ld: "length (drop 2 s) = 2"
    using ls by simp_all
  have srt: "sorted (map pos_y s)" by (simp add: s_def)
  let ?top = "sort_key pos_x (take 2 s)" and ?bottom = "sort_key pos_x (drop 2 s)"
  let ?q = "\<lparr> top_left = ?top ! 0, top_right = ?top ! 1,
               bottom_right = ?bottom ! 1, bottom_left = ?bottom ! 0 \<rparr>"
  have res: "fromUnsorted perm = Inr ?q"
    using len by (simp add: fromUnsorted_def s_def Let_def)
  have tx: "pos_x (?top ! 0) \<le> pos_x (?top ! 1)"
    by (rule sorted_pair_nth [OF lt])
  have bx: "pos_x (?bottom ! 0) \<le> pos_x (?bottom ! 1)"
    by (rule sorted_pair_nth [OF ld])
  have t0: "?top ! 0 \<in> set (take 2 s)" and t1: "?top ! 1 \<in> set (take 2 s)"
    by (rule sort_pair_nth_mem [OF lt], simp)+
  have b0: "?bottom ! 0 \<in> set (drop 2 s)" and b1: "?bottom ! 1 \<in> set (drop 2 s)"
    by (rule sort_pair_nth_mem [OF ld], simp)+
  have ly: "pos_y (?top ! 0) \<le> pos_y (?bottom ! 0)"
    by (rule sorted_take_le_drop [OF srt t0 b0])
  have ry: "pos_y (?top ! 1) \<le> pos_y (?bottom ! 1)"
    by (rule sorted_take_le_drop [OF srt t1 b1])
  have "QuadrilateralSchema_refine ?q"
    using tx bx ly ry by (simp add: QuadrilateralSchema_refine_def)
  with res show ?thesis by blast
qed

theorem fromUnsorted_ordering_invariant_witness:
  "length [\<lparr>pos_x = 1, pos_y = 1\<rparr>, \<lparr>pos_x = 1/2, pos_y = 0\<rparr>,
           \<lparr>pos_x = 0, pos_y = 3/4\<rparr>, \<lparr>pos_x = 0, pos_y = 1/4\<rparr>] = 4 \<and>
   list_all RelativePositionSchema
      [\<lparr>pos_x = 1, pos_y = 1\<rparr>, \<lparr>pos_x = 1/2, pos_y = 0\<rparr>,
       \<lparr>pos_x = 0, pos_y = 3/4\<rparr>, \<lparr>pos_x = 0, pos_y = 1/4\<rparr>] \<and>
   fromUnsorted [\<lparr>pos_x = 0, pos_y = 3/4\<rparr>, \<lparr>pos_x = 1, pos_y = 1\<rparr>,
                 \<lparr>pos_x = 0, pos_y = 1/4\<rparr>, \<lparr>pos_x = 1/2, pos_y = 0\<rparr>]
     = Inr \<lparr> top_left = \<lparr>pos_x = 0, pos_y = 1/4\<rparr>, top_right = \<lparr>pos_x = 1/2, pos_y = 0\<rparr>,
             bottom_right = \<lparr>pos_x = 1, pos_y = 1\<rparr>, bottom_left = \<lparr>pos_x = 0, pos_y = 3/4\<rparr> \<rparr> \<and>
   QuadrilateralSchema_refine
     \<lparr> top_left = \<lparr>pos_x = 0, pos_y = 1/4\<rparr>, top_right = \<lparr>pos_x = 1/2, pos_y = 0\<rparr>,
       bottom_right = \<lparr>pos_x = 1, pos_y = 1\<rparr>, bottom_left = \<lparr>pos_x = 0, pos_y = 3/4\<rparr> \<rparr>"
  using fromUnsorted_ordering_invariant
          [of "[\<lparr>pos_x = 1, pos_y = 1\<rparr>, \<lparr>pos_x = 1/2, pos_y = 0\<rparr>,
                \<lparr>pos_x = 0, pos_y = 3/4\<rparr>, \<lparr>pos_x = 0, pos_y = 1/4\<rparr>]"
              "[\<lparr>pos_x = 0, pos_y = 3/4\<rparr>, \<lparr>pos_x = 1, pos_y = 1\<rparr>,
                \<lparr>pos_x = 0, pos_y = 1/4\<rparr>, \<lparr>pos_x = 1/2, pos_y = 0\<rparr>]"]
  by (simp add: RelativePositionSchema_def fromUnsorted_def QuadrilateralSchema_refine_def)

section \<open>Properties of \<open>FetchWrapper\<close>\<close>

lemma reply_0: "reply fetch r 0 s = fst (fetch r s)"
  by (simp add: reply_def)

lemma reply_Suc: "reply fetch r (Suc n) s = reply fetch r n (snd (fetch r s))"
  by (simp add: reply_def)

lemma parse_data_not_timeout:
  "parse_data res schema \<noteq> Inl (Error ''Failed processing the request in a reasonable time'')"
  by (simp add: parse_data_def split: option.splits)

lemma error_of_response_not_timeout:
  "error_of_response res \<noteq> Error ''Failed processing the request in a reasonable time''"
  by (simp add: error_of_response_def http_error_def fromHttpResponse_def split: option.splits)

lemma all_le_Suc_shift: "(\<forall>i\<le>Suc n. P i) \<longleftrightarrow> P 0 \<and> (\<forall>i\<le>n. P (Suc i))"
  by (metis Suc_le_mono le0 not0_implies_Suc)

lemma loop_timeout_iff:
  "retry_count \<le> MAX_RETRIES \<Longrightarrow>
   fst (pollResult_loop fetch w path schema retry_count s)
       = Inl (Error ''Failed processing the request in a reasonable time'') \<longleftrightarrow>
   (\<forall>i \<le> MAX_RETRIES - retry_count.
       has_status (reply fetch (requestInit w ''GET'' path None) i s) 202)"
proof (induction fetch w path schema retry_count s rule: pollResult_loop.induct)
  case (1 fetch w path schema retry_count s)
  let ?r = "requestInit w ''GET'' path None"
  obtain a s' where f: "fetch ?r s = (a, s')" by (cases "fetch ?r s")
  show ?case
  proof (cases a)
    case (Inl msg)
    then show ?thesis using f
      by (subst pollResult_loop.simps) (auto simp: has_status_def reply_0)
  next
    case (Inr res)
    consider "status res = 200" | "status res = 202" "retry_count = MAX_RETRIES"
      | "status res = 202" "retry_count < MAX_RETRIES" | "status res \<noteq> 200" "status res \<noteq> 202"
      using "1.prems" by linarith
    then show ?thesis
    proof cases
      case 1
      then show ?thesis using f Inr
        by (subst pollResult_loop.simps)
           (auto simp: has_status_def reply_0 parse_data_not_timeout)
    next
      case 2
      then show ?thesis using f Inr
        by (subst pollResult_loop.simps) (auto simp: has_status_def reply_0)
    next
      case 3
      have step: "pollResult_loop fetch w path schema retry_count s
                  = pollResult_loop fetch w path schema (retry_count + 1) s'"
        using f Inr 3 by (subst pollResult_loop.simps) simp
      have ih: "fst (pollResult_loop fetch w path schema (retry_count + 1) s')
                  = Inl (Error ''Failed processing the request in a reasonable time'') \<longleftrightarrow>
                (\<forall>i \<le> MAX_RETRIES - (retry_count + 1). has_status (reply fetch ?r i s') 202)"
        using "1.IH" [OF f [symmetric] Inr] 3 by simp
      have m: "MAX_RETRIES - retry_count = Suc (MAX_RETRIES - (retry_count + 1))"
        using 3 by simp
      show ?thesis
        unfolding step ih m all_le_Suc_shift
        using f Inr 3 by (simp add: reply_0 reply_Suc has_status_def)
    next
      case 4
      then show ?thesis using f Inr
        by (subst pollResult_loop.simps)
           (auto simp: has_status_def reply_0 error_of_response_not_timeout)
    qed
  qed
qed

lemma loop_step:
  assumes "has_status (reply fetch (requestInit w ''GET'' path None) 0 s) 202"
    and "retry_count < MAX_RETRIES"
  shows "pollResult_loop fetch w path schema retry_count s =
         pollResult_loop fetch w path schema (retry_count + 1)
           (after_polls fetch (requestInit w ''GET'' path None) 1 s)"
  using assms
  by (subst pollResult_loop.simps)
     (auto simp: has_status_def reply_0 split: sum.splits prod.splits)

lemma loop_many:
  assumes "\<forall>i<k. has_status (reply fetch (requestInit w ''GET'' path None) i s) 202"
    and "retry_count + k \<le> MAX_RETRIES"
  shows "pollResult_loop fetch w path schema retry_count s =
         pollResult_loop fetch w path schema (retry_count + k)
           (after_polls fetch (requestInit w ''GET'' path None) k s)"
  using assms
proof (induction k arbitrary: retry_count s)
  case 0
  then show ?case by simp
next
  case (Suc k)
  let ?r = "requestInit w ''GET'' path None"
  have h0: "has_status (reply fetch ?r 0 s) 202" using Suc.prems(1) by blast
  have hs: "\<forall>i<k. has_status (reply fetch ?r i (snd (fetch ?r s))) 202"
    using Suc.prems(1) by (auto simp flip: reply_Suc)
  have lt: "retry_count < MAX_RETRIES" using Suc.prems(2) by simp
  have "pollResult_loop fetch w path schema retry_count s =
        pollResult_loop fetch w path schema (retry_count + 1) (snd (fetch ?r s))"
    using loop_step [OF h0 lt] by simp
  also have "\<dots> = pollResult_loop fetch w path schema (retry_count + 1 + k)
                     (after_polls fetch ?r k (snd (fetch ?r s)))"
    using Suc.IH [OF hs] Suc.prems(2) by simp
  finally show ?case by simp
qed

lemma loop_200:
  assumes "reply fetch (requestInit w ''GET'' path None) 0 s = Inr res" and "status res = 200"
  shows "pollResult_loop fetch w path schema retry_count s =
         (parse_data res schema, after_polls fetch (requestInit w ''GET'' path None) 1 s)"
  using assms
  by (subst pollResult_loop.simps) (auto simp: reply_0 split: sum.splits prod.splits)

text \<open>
  Claim C1. Against any transport, \<open>pollResult\<close> returns the body of the 200 response parsed
  against the result schema whenever the server answers 200 after at most 120 answers of
  202 (on success the parsed value); it fails with the poll-timeout error, the plain
  \<^verbatim>\<open>Error("Failed processing the request in a reasonable time")\<close>, exactly when the first 121
  answers are all 202, that is more than 120 consecutive times; and a 202 below the ceiling
  does nothing but increment \<^verbatim>\<open>retry_count\<close> and poll again at once.
\<close>

theorem pollResult_bounded_polling:
  "(k \<le> 120 \<and> (\<forall>i<k. has_status (reply fetch (requestInit w ''GET'' path None) i s) 202) \<and>
    reply fetch (requestInit w ''GET'' path None) k s = Inr res \<and> status res = 200 \<longrightarrow>
      pollResult fetch w path schema s =
        (parse_data res schema, after_polls fetch (requestInit w ''GET'' path None) (Suc k) s) \<and>
      (\<forall>data v. json res = Some data \<and> schema data = Some v \<longrightarrow>
         fst (pollResult fetch w path schema s) = Inr v)) \<and>
   (fst (pollResult fetch w path schema s)
        = Inl (Error ''Failed processing the request in a reasonable time'') \<longleftrightarrow>
      (\<forall>i\<le>120. has_status (reply fetch (requestInit w ''GET'' path None) i s) 202)) \<and>
   (has_status (reply fetch (requestInit w ''GET'' path None) 0 s) 202 \<and> retry_count < 120 \<longrightarrow>
      pollResult_loop fetch w path schema retry_count s =
        pollResult_loop fetch w path schema (retry_count + 1)
          (after_polls fetch (requestInit w ''GET'' path None) 1 s))"
proof (intro conjI impI)
  let ?r = "requestInit w ''GET'' path None"
  assume a: "k \<le> 120 \<and> (\<forall>i<k. has_status (reply fetch ?r i s) 202) \<and>
             reply fetch ?r k s = Inr res \<and> status res = 200"
  have k: "0 + k \<le> MAX_RETRIES" using a by (simp add: MAX_RETRIES_def)
  have pend: "\<forall>i<k. has_status (reply fetch ?r i s) 202" using a by blast
  have r0: "reply fetch ?r 0 (after_polls fetch ?r k s) = Inr res"
    using a by (simp add: reply_def)
  have "pollResult fetch w path schema s =
        pollResult_loop fetch w path schema (0 + k) (after_polls fetch ?r k s)"
    unfolding pollResult_def by (rule loop_many [OF pend k])
  also have "\<dots> = (parse_data res schema, after_polls fetch ?r 1 (after_polls fetch ?r k s))"
    using a by (intro loop_200 [OF r0]) simp
  also have "after_polls fetch ?r 1 (after_polls fetch ?r k s) = after_polls fetch ?r (Suc k) s"
    by (induction k arbitrary: s) simp_all
  finally show res: "pollResult fetch w path schema s =
                     (parse_data res schema, after_polls fetch ?r (Suc k) s)" .
  show "\<forall>data v. json res = Some data \<and> schema data = Some v \<longrightarrow>
          fst (pollResult fetch w path schema s) = Inr v"
    by (simp add: res parse_data_def)
next
  show "fst (pollResult fetch w path schema s)
          = Inl (Error ''Failed processing the request in a reasonable time'') \<longleftrightarrow>
        (\<forall>i\<le>120. has_status (reply fetch (requestInit w ''GET'' path None) i s) 202)"
    using loop_timeout_iff [of 0 fetch w path schema s]
    by (simp add: pollResult_def MAX_RETRIES_def)
next
  assume "has_status (reply fetch (requestInit w ''GET'' path None) 0 s) 202 \<and> retry_count < 120"
  then show "pollResult_loop fetch w path schema retry_count s =
        pollResult_loop fetch w path schema (retry_count + 1)
          (after_polls fetch (requestInit w ''GET'' path None) 1 s)"
    by (intro loop_step) (simp_all add: MAX_RETRIES_def)
qed

lemma reply_always: "reply (always res) r i s = Inr res"
  by (simp add: reply_def always_def)

theorem pollResult_bounded_polling_witness:
  "has_status (reply pending_twice (requestInit example_wrapper ''GET'' ''/pdf/ocr/job-1'' None) 0 0) 202 \<and>
   has_status (reply pending_twice (requestInit example_wrapper ''GET'' ''/pdf/ocr/job-1'' None) 1 0) 202 \<and>
   reply pending_twice (requestInit example_wrapper ''GET'' ''/pdf/ocr/job-1'' None) 2 0
     = Inr (json_response 200 ''OK'' (Some (JString ''done''))) \<and>
   pollResult pending_twice example_wrapper ''/pdf/ocr/job-1'' z_string 0 = (Inr ''done'', 3) \<and>
   fst (pollResult (always (json_response 202 ''Accepted'' None)) example_wrapper
          ''/pdf/ocr/job-1'' z_string ())
     = Inl (Error ''Failed processing the request in a reasonable time'') \<and>
   pollResult_loop (always (json_response 202 ''Accepted'' None)) example_wrapper
       ''/pdf/ocr/job-1'' z_string 7 ()
     = pollResult_loop (always (json_response 202 ''Accepted'' None)) example_wrapper
         ''/pdf/ocr/job-1'' z_string 8 ()"
proof -
  let ?r = "requestInit example_wrapper ''GET'' ''/pdf/ocr/job-1'' None"
  have p0: "has_status (reply pending_twice ?r 0 0) 202"
    and p1: "has_status (reply pending_twice ?r 1 0) 202"
    and p2: "reply pending_twice ?r 2 0 = Inr (json_response 200 ''OK'' (Some (JString ''done'')))"
    by (simp_all add: reply_def pending_twice_def has_status_def json_response_def
          numeral_2_eq_2)
  have pend: "\<forall>i<2. has_status (reply pending_twice ?r i 0) 202"
    using p0 p1 by (simp add: less_2_cases_iff)
  have st: "after_polls pending_twice ?r (Suc 2) 0 = 3"
    by (simp add: pending_twice_def numeral_2_eq_2)
  have run: "pollResult pending_twice example_wrapper ''/pdf/ocr/job-1'' z_string 0 = (Inr ''done'', 3)"
    using pollResult_bounded_polling
            [of 2 pending_twice example_wrapper "''/pdf/ocr/job-1''" 0
                "json_response 200 ''OK'' (Some (JString ''done''))" z_string]
          pend p2 st
    by (simp add: json_response_def parse_data_def z_string_def)
  have busy: "\<forall>i\<le>120. has_status (reply (always (json_response 202 ''Accepted'' None)) ?r i ()) 202"
    by (simp add: reply_always has_status_def json_response_def)
  have tmo: "fst (pollResult (always (json_response 202 ''Accepted'' None)) example_wrapper
                   ''/pdf/ocr/job-1'' z_string ())
             = Inl (Error ''Failed processing the request in a reasonable time'')"
    using pollResult_bounded_polling
            [of _ "always (json_response 202 ''Accepted'' None)" example_wrapper
                "''/pdf/ocr/job-1''" "()" _ z_string]
          busy
    by blast
  have step: "pollResult_loop (always (json_response 202 ''Accepted'' None)) example_wrapper
                 ''/pdf/ocr/job-1'' z_string 7 ()
               = pollResult_loop (always (json_response 202 ''Accepted'' None)) example_wrapper
                   ''/pdf/ocr/job-1'' z_string 8 ()"
    using pollResult_bounded_polling
            [of _ "always (json_response 202 ''Accepted'' None)" example_wrapper
                "''/pdf/ocr/job-1''" "()" _ z_string 7]
          busy
    by simp
  show ?thesis using p0 p1 p2 run tmo step by blast
qed

lemma z_number_int_of_int:
  "\<bar>i\<bar> \<le> 2 ^ 53 - 1 \<Longrightarrow> z_number_int (JNumber (of_int i)) = Some i"
proof -
  assume "\<bar>i\<bar> \<le> 2 ^ 53 - 1"
  then have "\<bar>(of_int i :: rat)\<bar> \<le> of_int (2 ^ 53 - 1)"
    unfolding of_int_abs [symmetric] of_int_le_iff .
  then show ?thesis by (simp add: z_number_int_def)
qed

lemma envelope_parses:
  assumes "\<bar>sc\<bar> \<le> 2 ^ 53 - 1" and "\<bar>c\<bar> \<le> 2 ^ 53 - 1"
  shows "HttpErrorResponseSchema
           (JObject [(''status_code'', JNumber (of_int sc)),
                     (''api_error'', JObject [(''code'', JNumber (of_int c)),
                                              (''name'', JString n),
                                              (''message'', JString msg)])])
         = Some \<lparr> status_code = sc, api_error = \<lparr> code = c, name = n, message = msg \<rparr> \<rparr>"
  using assms
  by (simp add: HttpErrorResponseSchema_def ApiErrorSchema_def field_def z_string_def
        z_number_int_of_int)

text \<open>
  Claim C8, as amended. A submit (\<open>post\<close>) returns the parsed created-job descriptor whenever
  the transport reports status 200 or 201. For every other status observed by a submit, and
  every status other than 200 and 202 observed by a poll, the operation fails: with the
  \<^verbatim>\<open>ApiErrorException\<close> that carries the status code and the \<^verbatim>\<open>code\<close>, \<^verbatim>\<open>name\<close> and
  \<^verbatim>\<open>message\<close> of the body unchanged when the body parses as the envelope
  \<^verbatim>\<open>{status_code, api_error: {code, name, message}}\<close>, and otherwise with the plain
  \<^verbatim>\<open>Error\<close> whose message carries the raw status and status text.
\<close>

theorem request_and_poll_failures:
  "(fetch (requestInit w ''POST'' path (Some b)) s = (Inr res, s') \<and>
    (status res = 200 \<or> status res = 201) \<longrightarrow>
      post fetch w path b schema s = (parse_data res schema, s') \<and>
      (\<forall>data v. json res = Some data \<and> schema data = Some v \<longrightarrow>
         post fetch w path b schema s = (Inr v, s'))) \<and>
   (fetch (requestInit w ''POST'' path (Some b)) s = (Inr res, s') \<and>
    status res \<noteq> 200 \<and> status res \<noteq> 201 \<longrightarrow>
      post fetch w path b schema s = (Inl (error_of_response res), s')) \<and>
   (fetch (requestInit w ''GET'' path None) s = (Inr res, s') \<and>
    status res \<noteq> 200 \<and> status res \<noteq> 202 \<longrightarrow>
      pollResult_loop fetch w path schema retry_count s = (Inl (error_of_response res), s')) \<and>
   (\<forall>data e. json res = Some data \<and> HttpErrorResponseSchema data = Some e \<longrightarrow>
      error_of_response res = ApiErrorException (status_code e) (api_error e)) \<and>
   (json res = None \<or> (\<exists>data. json res = Some data \<and> HttpErrorResponseSchema data = None) \<longrightarrow>
      error_of_response res =
        Error (''HTTP error! status: '' @ show_nat (status res) @ '' '' @ statusText res)) \<and>
   (\<bar>sc\<bar> \<le> 2 ^ 53 - 1 \<and> \<bar>c\<bar> \<le> 2 ^ 53 - 1 \<longrightarrow>
      HttpErrorResponseSchema
        (JObject [(''status_code'', JNumber (of_int sc)),
                  (''api_error'', JObject [(''code'', JNumber (of_int c)),
                                           (''name'', JString n),
                                           (''message'', JString msg)])])
      = Some \<lparr> status_code = sc, api_error = \<lparr> code = c, name = n, message = msg \<rparr> \<rparr>)"
proof (intro conjI impI allI)
  assume a: "fetch (requestInit w ''POST'' path (Some b)) s = (Inr res, s') \<and>
             (status res = 200 \<or> status res = 201)"
  then show r: "post fetch w path b schema s = (parse_data res schema, s')"
    by (auto simp: post_def request_def)
  fix data v
  assume "json res = Some data \<and> schema data = Some v"
  then show "post fetch w path b schema s = (Inr v, s')"
    by (simp add: r parse_data_def)
next
  assume "fetch (requestInit w ''POST'' path (Some b)) s = (Inr res, s') \<and>
          status res \<noteq> 200 \<and> status res \<noteq> 201"
  then show "post fetch w path b schema s = (Inl (error_of_response res), s')"
    by (simp add: post_def request_def)
next
  assume "fetch (requestInit w ''GET'' path None) s = (Inr res, s') \<and>
          status res \<noteq> 200 \<and> status res \<noteq> 202"
  then show "pollResult_loop fetch w path schema retry_count s = (Inl (error_of_response res), s')"
    by (subst pollResult_loop.simps) simp
next
  fix data e
  assume "json res = Some data \<and> HttpErrorResponseSchema data = Some e"
  then show "error_of_response res = ApiErrorException (status_code e) (api_error e)"
    by (simp add: error_of_response_def fromHttpResponse_def)
next
  assume "json res = None \<or> (\<exists>data. json res = Some data \<and> HttpErrorResponseSchema data = None)"
  then show "error_of_response res =
        Error (''HTTP error! status: '' @ show_nat (status res) @ '' '' @ statusText res)"
    by (auto simp: error_of_response_def http_error_def)
next
  assume "\<bar>sc\<bar> \<le> 2 ^ 53 - 1 \<and> \<bar>c\<bar> \<le> 2 ^ 53 - 1"
  then show "HttpErrorResponseSchema
        (JObject [(''status_code'', JNumber (of_int sc)),
                  (''api_error'', JObject [(''code'', JNumber (of_int c)),
                                           (''name'', JString n),
                                           (''message'', JString msg)])])
      = Some \<lparr> status_code = sc, api_error = \<lparr> code = c, name = n, message = msg \<rparr> \<rparr>"
    by (intro envelope_parses) simp_all
qed

lemma show_nat_202: "show_nat 202 = ''202''"
  by (simp add: show_nat.simps)

lemma show_nat_413: "show_nat 413 = ''413''"
  by (simp add: show_nat.simps)

text \<open>
  Claim C8 as stated fails: a submit answered with the success status 202 and a well-formed
  created-job descriptor does not return the descriptor but throws the plain \<^verbatim>\<open>Error\<close>,
  since \<open>request\<close> accepts the statuses 200 and 201 only; and an error body with the keys
  \<^verbatim>\<open>statusCode\<close> and \<^verbatim>\<open>apiError\<close> is not the envelope that \<^verbatim>\<open>HttpErrorResponseSchema\<close> parses.
\<close>

theorem submit_2xx_counterexample:
  "ok (json_response 202 ''Accepted'' (Some job_created)) \<and>
   TaskCreatedResponseSchema job_created = Some \<lparr> job_id = ''job-1'' \<rparr> \<and>
   post (always (json_response 202 ''Accepted'' (Some job_created))) example_wrapper
        ''/pdf/optimize'' (JObject [(''pdf_handle'', JString ''h'')]) TaskCreatedResponseSchema ()
     = (Inl (Error ''HTTP error! status: 202 Accepted''), ()) \<and>
   post (always (json_response 413 ''Payload Too Large'' (Some camel_case_envelope))) example_wrapper
        ''/pdf/optimize'' (JObject [(''pdf_handle'', JString ''h'')]) TaskCreatedResponseSchema ()
     = (Inl (Error ''HTTP error! status: 413 Payload Too Large''), ())"
  by (simp add: ok_def json_response_def job_created_def camel_case_envelope_def
        TaskCreatedResponseSchema_def field_def z_string_def post_def request_def always_def
        error_of_response_def HttpErrorResponseSchema_def http_error_def show_nat_202 show_nat_413)

theorem request_and_poll_failures_witness:
  "post (always (json_response 201 ''Created'' (Some job_created))) example_wrapper
        ''/pdf/optimize'' (JObject [(''pdf_handle'', JString ''h'')]) TaskCreatedResponseSchema ()
     = (Inr \<lparr> job_id = ''job-1'' \<rparr>, ()) \<and>
   post (always (json_response 413 ''Payload Too Large'' (Some too_large_envelope))) example_wrapper
        ''/pdf/optimize'' (JObject [(''pdf_handle'', JString ''h'')]) TaskCreatedResponseSchema ()
     = (Inl (ApiErrorException 413
              \<lparr> code = 301, name = ''PDF_TOO_LARGE'', message = ''too large'' \<rparr>), ()) \<and>
   pollResult (always (json_response 502 ''Bad Gateway'' None)) example_wrapper
        ''/pdf/optimize/job-1'' TaskCreatedResponseSchema ()
     = (Inl (Error ''HTTP error! status: 502 Bad Gateway''), ())"
proof -
  let ?b = "JObject [(''pdf_handle'', JString ''h'')]"
  let ?r201 = "json_response 201 ''Created'' (Some job_created)"
  let ?r413 = "json_response 413 ''Payload Too Large'' (Some too_large_envelope)"
  let ?r502 = "json_response 502 ''Bad Gateway'' None"
  have created: "post (always ?r201) example_wrapper ''/pdf/optimize'' ?b TaskCreatedResponseSchema ()
                 = (Inr \<lparr> job_id = ''job-1'' \<rparr>, ())"
    using request_and_poll_failures
            [of "always ?r201" example_wrapper "''/pdf/optimize''" ?b "()" ?r201 "()"
                TaskCreatedResponseSchema 0 413 301 "''PDF_TOO_LARGE''" "''too large''"]
    by (simp add: always_def json_response_def job_created_def TaskCreatedResponseSchema_def
          field_def z_string_def parse_data_def)
  have failed: "post (always ?r413) example_wrapper ''/pdf/optimize'' ?b TaskCreatedResponseSchema ()
                = (Inl (ApiErrorException 413
                     \<lparr> code = 301, name = ''PDF_TOO_LARGE'', message = ''too large'' \<rparr>), ())"
    using request_and_poll_failures
            [of "always ?r413" example_wrapper "''/pdf/optimize''" ?b "()" ?r413 "()"
                TaskCreatedResponseSchema 0 413 301 "''PDF_TOO_LARGE''" "''too large''"]
    by (simp add: always_def json_response_def too_large_envelope_def)
  have polled: "pollResult (always ?r502) example_wrapper ''/pdf/optimize/job-1''
                  TaskCreatedResponseSchema ()
                = (Inl (Error ''HTTP error! status: 502 Bad Gateway''), ())"
    using request_and_poll_failures
            [of "always ?r502" example_wrapper "''/pdf/optimize/job-1''" ?b "()" ?r502 "()"
                TaskCreatedResponseSchema 0 413 301 "''PDF_TOO_LARGE''" "''too large''"]
    by (simp add: always_def json_response_def pollResult_def show_nat.simps)
  show ?thesis using created failed polled by blast
qed

section \<open>Properties of the unwrappers\<close>

text \<open>
  Claim C2, as amended. For every validation response, the unwrappers (\<open>okHtml\<close>, \<open>okEmail\<close>,
  and their counterparts for images and PDFs, \<open>okImg_spec\<close> and \<open>okPdf_spec\<close>) return the
  enclosed handle unmodified when the tag is the Ok tag of their kind; throw
  \<^verbatim>\<open>ValidationErrorException\<close> with the original message when it is the Error tag; throw
  \<^verbatim>\<open>ValidationVirusException\<close> with the virus message when it is the Virus tag; and throw
  \<^verbatim>\<open>ValidationErrorException("Unknown validation response type")\<close> for every other tag. They
  return normally in the Ok case only.
\<close>

theorem unwrap_by_tag:
  "(class_name (response h) = ''HtmlValidateResponseOk'' \<longrightarrow>
      okHtml h = Inr (html_handle (response h))) \<and>
   (class_name (response h) = ''HtmlValidateResponseError'' \<longrightarrow>
      okHtml h = Inl (ValidationErrorException (error (response h)))) \<and>
   (class_name (response h) = ''HtmlValidateResponseVirus'' \<longrightarrow>
      okHtml h = Inl (ValidationVirusException (virus (response h)))) \<and>
   (class_name (response h) \<noteq> ''HtmlValidateResponseOk'' \<and>
    class_name (response h) \<noteq> ''HtmlValidateResponseError'' \<and>
    class_name (response h) \<noteq> ''HtmlValidateResponseVirus'' \<longrightarrow>
      okHtml h = Inl (ValidationErrorException ''Unknown validation response type'')) \<and>
   ((\<exists>v. okHtml h = Inr v) \<longleftrightarrow> class_name (response h) = ''HtmlValidateResponseOk'') \<and>
   (class_name (response e) = ''EmailValidateResponseOk'' \<longrightarrow>
      okEmail e = Inr (email_handle (response e))) \<and>
   (class_name (response e) = ''EmailValidateResponseError'' \<longrightarrow>
      okEmail e = Inl (ValidationErrorException (error (response e)))) \<and>
   (class_name (response e) = ''EmailValidateResponseVirus'' \<longrightarrow>
      okEmail e = Inl (ValidationVirusException (virus (response e)))) \<and>
   (class_name (response e) \<noteq> ''EmailValidateResponseOk'' \<and>
    class_name (response e) \<noteq> ''EmailValidateResponseError'' \<and>
    class_name (response e) \<noteq> ''EmailValidateResponseVirus'' \<longrightarrow>
      okEmail e = Inl (ValidationErrorException ''Unknown validation response type'')) \<and>
   ((\<exists>v. okEmail e = Inr v) \<longleftrightarrow> class_name (response e) = ''EmailValidateResponseOk'') \<and>
   (class_name (response i) = ''ImgValidateResponseOk'' \<longrightarrow>
      okImg_spec i = Inr (ImgValidateResponse_response.img_handle (response i))) \<and>
   (class_name (response i) = ''ImgValidateResponseError'' \<longrightarrow>
      okImg_spec i = Inl (ValidationErrorException (error (response i)))) \<and>
   (class_name (response i) = ''ImgValidateResponseVirus'' \<longrightarrow>
      okImg_spec i = Inl (ValidationVirusException (virus (response i)))) \<and>
   (class_name (response i) \<noteq> ''ImgValidateResponseOk'' \<and>
    class_name (response i) \<noteq> ''ImgValidateResponseError'' \<and>
    class_name (response i) \<noteq> ''ImgValidateResponseVirus'' \<longrightarrow>
      okImg_spec i = Inl (ValidationErrorException ''Unknown validation response type'')) \<and>
   ((\<exists>v. okImg_spec i = Inr v) \<longleftrightarrow> class_name (response i) = ''ImgValidateResponseOk'') \<and>
   (class_name (response p) = ''PdfValidateResponseOk'' \<longrightarrow>
      okPdf_spec p = Inr (PdfValidateResponse_response.pdf_handle (response p))) \<and>
   (class_name (response p) = ''PdfValidateResponseError'' \<longrightarrow>
      okPdf_spec p = Inl (ValidationErrorException (error (response p)))) \<and>
   (class_name (response p) = ''PdfValidateResponseVirus'' \<longrightarrow>
      okPdf_spec p = Inl (ValidationVirusException (virus (response p)))) \<and>
   (class_name (response p) \<noteq> ''PdfValidateResponseOk'' \<and>
    class_name (response p) \<noteq> ''PdfValidateResponseError'' \<and>
    class_name (response p) \<noteq> ''PdfValidateResponseVirus'' \<longrightarrow>
      okPdf_spec p = Inl (ValidationErrorException ''Unknown validation response type'')) \<and>
   ((\<exists>v. okPdf_spec p = Inr v) \<longleftrightarrow> class_name (response p) = ''PdfValidateResponseOk'')"
  by (simp add: okHtml_def okEmail_def okImg_spec_def okPdf_spec_def)

theorem unwrap_by_tag_witness:
  "okHtml \<lparr> outer_class_name = ''HtmlValidateResponse'',
            response = \<lparr> class_name = ''HtmlValidateResponseOk'', error = '''', virus = '''',
                         html_handle = ''html-7'' \<rparr> \<rparr> = Inr ''html-7'' \<and>
   okHtml \<lparr> outer_class_name = ''HtmlValidateResponse'',
            response = \<lparr> class_name = ''HtmlValidateResponseError'', error = ''not HTML'',
                         virus = '''', html_handle = '''' \<rparr> \<rparr>
     = Inl (ValidationErrorException ''not HTML'') \<and>
   okHtml quarantined_html = Inl (ValidationErrorException ''Unknown validation response type'') \<and>
   okEmail \<lparr> outer_class_name = ''EmailValidateResponse'',
             response = \<lparr> class_name = ''EmailValidateResponseVirus'', error = '''',
                          virus = ''EICAR'', email_handle = '''' \<rparr> \<rparr>
     = Inl (ValidationVirusException ''EICAR'') \<and>
   okEmail \<lparr> outer_class_name = ''EmailValidateResponse'',
             response = \<lparr> class_name = ''EmailValidateResponseOk'', error = '''', virus = '''',
                          email_handle = ''mail-3'' \<rparr> \<rparr> = Inr ''mail-3'' \<and>
   okEmail \<lparr> outer_class_name = ''EmailValidateResponse'',
             response = \<lparr> class_name = ''HtmlValidateResponseOk'', error = '''', virus = '''',
                          email_handle = ''mail-3'' \<rparr> \<rparr>
     = Inl (ValidationErrorException ''Unknown validation response type'') \<and>
   okImg_spec validated_img = Inr ''img-5'' \<and>
   okImg_spec quarantined_img
     = Inl (ValidationErrorException ''Unknown validation response type'') \<and>
   okPdf_spec infected_pdf = Inl (ValidationVirusException ''EICAR'') \<and>
   okPdf_spec rejected_pdf = Inl (ValidationErrorException ''not a PDF'')"
  using unwrap_by_tag
          [of "\<lparr> outer_class_name = ''HtmlValidateResponse'',
                 response = \<lparr> class_name = ''HtmlValidateResponseOk'', error = '''', virus = '''',
                              html_handle = ''html-7'' \<rparr> \<rparr>"
              "\<lparr> outer_class_name = ''EmailValidateResponse'',
                 response = \<lparr> class_name = ''EmailValidateResponseVirus'', error = '''',
                              virus = ''EICAR'', email_handle = '''' \<rparr> \<rparr>"
              validated_img infected_pdf]
        unwrap_by_tag
          [of "\<lparr> outer_class_name = ''HtmlValidateResponse'',
                 response = \<lparr> class_name = ''HtmlValidateResponseError'', error = ''not HTML'',
                              virus = '''', html_handle = '''' \<rparr> \<rparr>"
              "\<lparr> outer_class_name = ''EmailValidateResponse'',
                 response = \<lparr> class_name = ''EmailValidateResponseOk'', error = '''', virus = '''',
                              email_handle = ''mail-3'' \<rparr> \<rparr>"
              quarantined_img rejected_pdf]
        unwrap_by_tag
          [of quarantined_html
              "\<lparr> outer_class_name = ''EmailValidateResponse'',
                 response = \<lparr> class_name = ''HtmlValidateResponseOk'', error = '''', virus = '''',
                              email_handle = ''mail-3'' \<rparr> \<rparr>"
              validated_img infected_pdf]
  by (simp add: quarantined_html_def validated_img_def quarantined_img_def infected_pdf_def
        rejected_pdf_def)

text \<open>
  Claim C2 as stated fails in the message of the default branch: for a tag outside the three
  of the schema the exception carries \<^verbatim>\<open>"Unknown validation response type"\<close>, with a capital
  letter, not \<^verbatim>\<open>"unknown validation response type"\<close>.
\<close>

theorem unknown_tag_message_counterexample:
  "okHtml quarantined_html = Inl (ValidationErrorException ''Unknown validation response type'') \<and>
   okHtml quarantined_html \<noteq> Inl (ValidationErrorException ''unknown validation response type'')"
  by (simp add: okHtml_def quarantined_html_def)

section \<open>Properties of \<open>DataEp\<close>\<close>

subsection \<open>Rounding to a double\<close>

lemma round_half_even_of_int: "round_half_even (of_int n) = n"
  by (simp add: round_half_even_def)

lemma round_half_even_bounds:
  "of_int \<lfloor>x\<rfloor> \<le> (of_int (round_half_even x) :: rat) \<and> round_half_even x \<le> \<lfloor>x\<rfloor> + 1"
  by (simp add: round_half_even_def Let_def)

lemma round_half_even_mono:
  assumes "x \<le> y"
  shows "round_half_even x \<le> round_half_even y"
proof (cases "\<lfloor>x\<rfloor> = \<lfloor>y\<rfloor>")
  case True
  have "x - of_int \<lfloor>x\<rfloor> \<le> y - of_int \<lfloor>y\<rfloor>" using assms True by simp
  then show ?thesis
    using True by (auto simp: round_half_even_def Let_def)
next
  case False
  have "\<lfloor>x\<rfloor> \<le> \<lfloor>y\<rfloor>" using assms by (rule floor_mono)
  with False have "\<lfloor>x\<rfloor> + 1 \<le> \<lfloor>y\<rfloor>" by simp
  moreover have "round_half_even x \<le> \<lfloor>x\<rfloor> + 1"
    by (simp add: round_half_even_def Let_def)
  moreover have "\<lfloor>y\<rfloor> \<le> round_half_even y"
    by (simp add: round_half_even_def Let_def)
  ultimately show ?thesis by linarith
qed

lemma ilog2_bounds:
  "0 < x \<Longrightarrow> 2 powi ilog2 x \<le> x \<and> x < 2 powi (ilog2 x + 1)"
proof (induction x rule: ilog2.induct)
  case (1 x)
  show ?case
  proof (cases "2 \<le> x")
    case True
    then have ih: "2 powi ilog2 (x / 2) \<le> x / 2 \<and> x / 2 < 2 powi (ilog2 (x / 2) + 1)"
      using "1.IH"(1) "1.prems" by simp
    have e: "ilog2 x = ilog2 (x / 2) + 1" using True by (subst ilog2.simps) simp
    show ?thesis
      unfolding e using ih by (simp add: power_int_add field_simps)
  next
    case False
    show ?thesis
    proof (cases "x < 1")
      case True
      then have c: "0 < x \<and> x < 1" using "1.prems" by simp
      have ih: "2 powi ilog2 (x * 2) \<le> x * 2 \<and> x * 2 < 2 powi (ilog2 (x * 2) + 1)"
        using "1.IH"(2) [OF False c] "1.prems" by simp
      have e: "ilog2 x = ilog2 (x * 2) - 1" using False c by (subst ilog2.simps) simp
      show ?thesis
        unfolding e using ih by (simp add: power_int_diff power_int_add field_simps)
    next
      case ge: False
      have e: "ilog2 x = 0" using False ge by (subst ilog2.simps) simp
      show ?thesis unfolding e using False ge by simp
    qed
  qed
qed

lemma ilog2_mono:
  assumes "0 < x" and "x \<le> y"
  shows "ilog2 x \<le> ilog2 y"
proof (rule ccontr)
  assume "\<not> ilog2 x \<le> ilog2 y"
  then have "ilog2 y + 1 \<le> ilog2 x" by simp
  then have "(2::rat) powi (ilog2 y + 1) \<le> 2 powi ilog2 x"
    by (intro power_int_increasing) simp_all
  moreover have "y < 2 powi (ilog2 y + 1)" using ilog2_bounds [of y] assms by simp
  moreover have "2 powi ilog2 x \<le> x" using ilog2_bounds [of x] assms by simp
  ultimately show False using assms by linarith
qed

lemma two_powi_nonneg: "0 \<le> k \<Longrightarrow> (2::rat) powi k = of_int (2 ^ nat k)"
  by (simp add: power_int_nonneg_exp)

lemma round_double_pos:
  assumes "0 < x"
  shows "round_double x =
           of_int (round_half_even (x / 2 powi max (ilog2 x - 52) (- 1074))) *
           2 powi max (ilog2 x - 52) (- 1074)"
  using assms by (simp add: round_double_def Let_def)

lemma round_double_mono_pos:
  assumes "0 < x" and "x \<le> y"
  shows "round_double x \<le> round_double y"
proof -
  define qx where "qx = max (ilog2 x - 52) (- 1074)"
  define qy where "qy = max (ilog2 y - 52) (- 1074)"
  have ypos: "0 < y" using assms by simp
  have rx: "round_double x = of_int (round_half_even (x / 2 powi qx)) * 2 powi qx"
    unfolding qx_def by (rule round_double_pos [OF assms(1)])
  have ry: "round_double y = of_int (round_half_even (y / 2 powi qy)) * 2 powi qy"
    unfolding qy_def by (rule round_double_pos [OF ypos])
  have e: "ilog2 x \<le> ilog2 y" by (rule ilog2_mono [OF assms])
  then have q: "qx \<le> qy" by (simp add: qx_def qy_def)
  show ?thesis
  proof (cases "qx = qy")
    case True
    have "x / 2 powi qy \<le> y / 2 powi qy"
      using assms(2) by (simp add: divide_right_mono)
    then have "round_half_even (x / 2 powi qy) \<le> round_half_even (y / 2 powi qy)"
      by (rule round_half_even_mono)
    then have "(of_int (round_half_even (x / 2 powi qy)) :: rat) * 2 powi qy
               \<le> of_int (round_half_even (y / 2 powi qy)) * 2 powi qy"
      by (simp add: mult_right_mono)
    then show ?thesis unfolding rx ry True .
  next
    case False
    with q have lt: "qx < qy" by simp
    have qy_eq: "qy = ilog2 y - 52" using lt by (auto simp: qx_def qy_def max_def split: if_splits)
    have elt: "ilog2 x < ilog2 y"
      using lt e by (auto simp: qx_def qy_def max_def split: if_splits)
    \<comment> \<open>the rounded value of \<open>y\<close> is at least \<open>2 powi ilog2 y\<close>\<close>
    have "(2::rat) powi 52 = 2 powi ilog2 y / 2 powi qy"
      unfolding qy_eq by (simp add: power_int_diff)
    also have "\<dots> \<le> y / 2 powi qy"
      using ilog2_bounds [OF ypos] by (simp add: divide_right_mono)
    finally have "of_int (2 ^ 52) \<le> y / 2 powi qy" by simp
    then have "round_half_even (of_int (2 ^ 52)) \<le> round_half_even (y / 2 powi qy)"
      by (rule round_half_even_mono)
    then have "(2 ^ 52 :: int) \<le> round_half_even (y / 2 powi qy)"
      by (simp only: round_half_even_of_int)
    then have "(of_int (2 ^ 52) :: rat) \<le> of_int (round_half_even (y / 2 powi qy))"
      by (simp only: of_int_le_iff)
    then have "(of_int (2 ^ 52) :: rat) * 2 powi qy \<le> round_double y"
      unfolding ry by (simp add: mult_right_mono)
    moreover have "(of_int (2 ^ 52) :: rat) * 2 powi qy = 2 powi ilog2 y"
      unfolding qy_eq by (simp add: power_int_diff)
    ultimately have lower: "2 powi ilog2 y \<le> round_double y" by simp
    \<comment> \<open>the rounded value of \<open>x\<close> is at most \<open>2 powi ilog2 y\<close>\<close>
    have k: "0 \<le> ilog2 y - qx" using lt qy_eq by simp
    have "x < 2 powi (ilog2 x + 1)" using ilog2_bounds [OF assms(1)] by simp
    also have "\<dots> \<le> 2 powi ilog2 y"
      using elt by (intro power_int_increasing) simp_all
    finally have "x / 2 powi qx \<le> 2 powi ilog2 y / 2 powi qx"
      by (simp add: divide_right_mono)
    also have "\<dots> = 2 powi (ilog2 y - qx)" by (simp add: power_int_diff)
    also have "\<dots> = of_int (2 ^ nat (ilog2 y - qx))" by (rule two_powi_nonneg [OF k])
    finally have "round_half_even (x / 2 powi qx)
                  \<le> round_half_even (of_int (2 ^ nat (ilog2 y - qx)))"
      by (rule round_half_even_mono)
    then have "round_half_even (x / 2 powi qx) \<le> 2 ^ nat (ilog2 y - qx)"
      by (simp only: round_half_even_of_int)
    then have "(of_int (round_half_even (x / 2 powi qx)) :: rat)
               \<le> of_int (2 ^ nat (ilog2 y - qx))"
      by (simp only: of_int_le_iff)
    then have "round_double x \<le> of_int (2 ^ nat (ilog2 y - qx)) * 2 powi qx"
      unfolding rx by (simp add: mult_right_mono)
    also have "of_int (2 ^ nat (ilog2 y - qx)) * 2 powi qx = (2::rat) powi (ilog2 y - qx) * 2 powi qx"
      by (simp only: two_powi_nonneg [OF k])
    also have "\<dots> = 2 powi ilog2 y"
      by (simp flip: power_int_add)
    finally have upper: "round_double x \<le> 2 powi ilog2 y" .
    from upper lower show ?thesis by simp
  qed
qed

lemma round_double_0: "round_double 0 = 0"
  by (simp add: round_double_def)

lemma round_double_nonneg: "0 \<le> x \<Longrightarrow> 0 \<le> round_double x"
proof (cases "x = 0")
  case True
  then show ?thesis by (simp add: round_double_0)
next
  case False
  assume "0 \<le> x"
  with False have pos: "0 < x" by simp
  have "0 \<le> x / 2 powi max (ilog2 x - 52) (- 1074)" using pos by simp
  then have "round_half_even 0 \<le> round_half_even (x / 2 powi max (ilog2 x - 52) (- 1074))"
    by (rule round_half_even_mono)
  then have "0 \<le> round_half_even (x / 2 powi max (ilog2 x - 52) (- 1074))"
    using round_half_even_of_int [of 0] by simp
  then show ?thesis
    unfolding round_double_pos [OF pos] by simp
qed

lemma round_double_mono:
  assumes "0 \<le> x" and "x \<le> y"
  shows "round_double x \<le> round_double y"
proof (cases "x = 0")
  case True
  then show ?thesis using assms round_double_nonneg [of y] by (simp add: round_double_0)
next
  case False
  with assms show ?thesis by (intro round_double_mono_pos) simp_all
qed

lemma round_double_1: "round_double 1 = 1"
  by code_simp

lemma round_double_100: "round_double 100 = 100"
  by code_simp

lemma round_double_of_nat:
  assumes "n \<le> 2 ^ 53"
  shows "round_double (of_nat n) = of_nat n"
proof (cases "n = 0")
  case True
  then show ?thesis by (simp add: round_double_0)
next
  case False
  define x :: rat where "x = of_nat n"
  have pos: "0 < x" and one: "1 \<le> x" using False by (simp_all add: x_def)
  have le: "x \<le> 2 ^ 53"
  proof -
    have "(of_nat n :: rat) \<le> of_nat (2 ^ 53)" using assms by (simp only: of_nat_le_iff)
    then show ?thesis by (simp add: x_def)
  qed
  define e where "e = ilog2 x"
  have b: "2 powi e \<le> x" "x < 2 powi (e + 1)"
    using ilog2_bounds [OF pos] by (simp_all add: e_def)
  have e0: "0 \<le> e"
  proof (rule ccontr)
    assume "\<not> 0 \<le> e"
    then have "e + 1 \<le> 0" by simp
    then have "(2::rat) powi (e + 1) \<le> 2 powi 0" by (intro power_int_increasing) simp_all
    with b(2) one show False by simp
  qed
  have e53: "e \<le> 53"
  proof (rule ccontr)
    assume "\<not> e \<le> 53"
    then have "54 \<le> e" by simp
    then have "(2::rat) powi 54 \<le> 2 powi e" by (intro power_int_increasing) simp_all
    with b(1) le show False by simp
  qed
  have r: "round_double x = of_int (round_half_even (x / 2 powi (e - 52))) * 2 powi (e - 52)"
    using e0 by (simp add: round_double_pos [OF pos] e_def max_def)
  show ?thesis
  proof (cases "e = 53")
    case True
    have "2 powi (53::int) \<le> x" using b(1) True by simp
    then have "x = 2 ^ 53" using le by simp
    then have n: "n = 2 ^ 53" using assms
      by (metis of_nat_eq_iff of_nat_numeral of_nat_power x_def)
    have "round_double 9007199254740992 = 9007199254740992" by code_simp
    then show ?thesis by (simp add: n)
  next
    case False
    with e53 have k: "0 \<le> 52 - e" by simp
    have p: "(2::rat) powi (e - 52) = 1 / of_int (2 ^ nat (52 - e))"
    proof -
      have "(2::rat) powi (e - 52) = inverse (2 powi (52 - e))"
        by (metis minus_diff_eq power_int_minus)
      then show ?thesis by (simp add: two_powi_nonneg [OF k] inverse_eq_divide)
    qed
    have "x / 2 powi (e - 52) = of_int (int n * 2 ^ nat (52 - e))"
      unfolding p by (simp add: x_def)
    then have "round_half_even (x / 2 powi (e - 52)) = int n * 2 ^ nat (52 - e)"
      by (simp only: round_half_even_of_int)
    then have "round_double x = of_int (int n * 2 ^ nat (52 - e)) * (1 / of_int (2 ^ nat (52 - e)))"
      unfolding r p by simp
    also have "\<dots> = x" by (simp add: x_def)
    finally show ?thesis by (simp add: x_def)
  qed
qed

lemma to_number_exact: "n \<le> 2 ^ 53 \<Longrightarrow> to_number n = of_nat n"
  by (simp add: to_number_def round_double_of_nat)

lemma js_plus_exact:
  assumes "m + n \<le> 2 ^ 53"
  shows "js_plus (of_nat m) (to_number n) = of_nat (m + n)"
proof -
  have "n \<le> 2 ^ 53" using assms by simp
  then have "to_number n = of_nat n" by (rule to_number_exact)
  then have "js_plus (of_nat m) (to_number n) = round_double (of_nat (m + n))"
    by (simp add: js_plus_def)
  then show ?thesis using assms by (simp only: round_double_of_nat)
qed

subsection \<open>The download loop\<close>

lemma parseInt_Nil: "parseInt [] = None"
  by (simp add: parseInt_def)

lemma read_loop_eq:
  "l + length (concat stream) \<le> 2 ^ 53 \<Longrightarrow>
   read_loop t stream chunks (of_nat l) cs =
     (chunks @ stream, of_nat (l + length (concat stream)),
      cs @ map (\<lambda>k. js_times (js_divide (of_nat (l + length (concat (take k stream)))) t) 100)
             [1..<Suc (length stream)])"
proof (induction stream arbitrary: chunks l cs)
  case Nil
  then show ?case by simp
next
  case (Cons v rest)
  have upt: "[1..<Suc (Suc (length rest))] = 1 # map Suc [1..<Suc (length rest)]"
    by (simp add: upt_conv_Cons map_Suc_upt del: upt_Suc)
  have fit: "l + length v \<le> 2 ^ 53" using Cons.prems by simp
  have step: "js_plus (of_nat l) (to_number (length v)) = of_nat (l + length v)"
    by (rule js_plus_exact [OF fit])
  have rest: "l + length v + length (concat rest) \<le> 2 ^ 53" using Cons.prems by simp
  show ?case
    unfolding read_loop.simps step Cons.IH [OF rest] length_Cons upt
    by (simp add: o_def add.assoc)
qed

lemma combine_eq:
  "offset + length (concat cs) \<le> length result \<Longrightarrow>
   combine result offset cs =
     Inr (take offset result @ concat cs @ drop (offset + length (concat cs)) result)"
proof (induction cs arbitrary: result offset)
  case Nil
  then show ?case by simp
next
  case (Cons c cs)
  let ?r = "take offset result @ c @ drop (offset + length c) result"
  have fit: "offset + length c \<le> length result" using Cons.prems by simp
  have len: "length ?r = length result" using fit by simp
  have pre: "offset + length c + length (concat cs) \<le> length ?r"
    using Cons.prems len by simp
  have tk: "take (offset + length c) ?r = take offset result @ c"
    using fit by simp
  have dr: "drop (offset + length c + length (concat cs)) ?r
            = drop (offset + length c + length (concat cs)) result"
    using fit by (simp add: ac_simps)
  show ?case
    using fit Cons.IH [OF pre] tk dr by (simp add: add.assoc)
qed

lemma combine_all:
  "combine (replicate (length (concat cs)) 0) 0 cs = Inr (concat cs)"
  using combine_eq [of 0 cs "replicate (length (concat cs)) 0"] by simp

lemma read_response_streamed:
  assumes "ok resp" and "content_length resp = Some c" and "c \<noteq> []"
    and "parseInt c = Some t" and "t \<noteq> 0" and "body resp = Some stream"
    and "length (concat stream) < 2 ^ 53"
  shows "read_response resp =
           (Inr (concat stream),
            map (\<lambda>k. js_times (js_divide (of_nat (length (concat (take k stream)))) t) 100)
              [1..<Suc (length stream)])"
proof -
  have le: "0 + length (concat stream) \<le> 2 ^ 53" using assms(7) by simp
  have loop: "read_loop t stream [] 0 [] =
     ([] @ stream, of_nat (0 + length (concat stream)),
      [] @ map (\<lambda>k. js_times (js_divide (of_nat (0 + length (concat (take k stream)))) t) 100)
             [1..<Suc (length stream)])"
    using read_loop_eq [OF le, of t "[]" "[]"] by simp
  have small: "\<not> (of_nat (length (concat stream)) :: rat) > 2 ^ 53 - 1"
  proof -
    have "length (concat stream) \<le> 2 ^ 53 - 1" using assms(7) by simp
    then have "(of_nat (length (concat stream)) :: rat) \<le> of_nat (2 ^ 53 - 1)"
      by (simp only: of_nat_le_iff)
    then show ?thesis by simp
  qed
  show ?thesis
    using assms(1-6) small by (simp add: read_response_def loop combine_all)
qed

lemma read_response_fallback:
  assumes "ok resp" and "content_length resp = None"
  shows "read_response resp = (Inr (arrayBuffer resp), [])"
  using assms by (simp add: read_response_def)

lemma length_concat_take_le: "length (concat (take k xs)) \<le> length (concat xs)"
proof -
  have "concat xs = concat (take k xs) @ concat (drop k xs)"
    by (simp flip: concat_append)
  then show ?thesis by (metis le_add1 length_append)
qed

lemma length_concat_take_mono:
  assumes "k \<le> k'"
  shows "length (concat (take k xs)) \<le> length (concat (take k' xs))"
proof -
  have "take k xs = take k (take k' xs)" using assms by (simp add: min_def)
  then show ?thesis by (metis length_concat_take_le)
qed

lemma sorted_map_upt:
  assumes "\<And>i j. i \<le> j \<Longrightarrow> f i \<le> (f j :: rat)"
  shows "sorted (map f [a..<b])"
  unfolding sorted_map
  by (rule sorted_wrt_mono_rel [of _ "(\<le>)"]) (auto intro: assms)

text \<open>The percentage \<open>(a / b) * 100\<close> in doubles, for \<open>0 \<le> a\<close> and \<open>0 < b\<close>.\<close>

lemma percent_mono:
  assumes "0 \<le> a" and "a \<le> a'" and "0 < b"
  shows "js_times (js_divide a b) 100 \<le> js_times (js_divide a' b) 100"
proof -
  have "0 \<le> a / b" and "a / b \<le> a' / b"
    using assms by (simp_all add: divide_right_mono)
  then have q: "round_double (a / b) \<le> round_double (a' / b)"
    by (rule round_double_mono)
  have "0 \<le> round_double (a / b)" using \<open>0 \<le> a / b\<close> by (rule round_double_nonneg)
  then have "0 \<le> round_double (a / b) * 100" by simp
  moreover have "round_double (a / b) * 100 \<le> round_double (a' / b) * 100" using q by simp
  ultimately show ?thesis
    unfolding js_times_def js_divide_def by (rule round_double_mono)
qed

lemma percent_nonneg:
  assumes "0 \<le> a" and "0 < b"
  shows "0 \<le> js_times (js_divide a b) 100"
proof -
  have "0 \<le> a / b" using assms by simp
  then have "0 \<le> round_double (a / b) * 100" using round_double_nonneg by simp
  then show ?thesis unfolding js_times_def js_divide_def by (rule round_double_nonneg)
qed

lemma percent_full:
  assumes "b \<noteq> 0"
  shows "js_times (js_divide b b) 100 = 100"
  using assms by (simp add: js_times_def js_divide_def round_double_1 round_double_100)

lemma percent_le_100:
  assumes "0 \<le> a" and "a \<le> b" and "0 < b"
  shows "js_times (js_divide a b) 100 \<le> 100"
  using percent_mono [OF assms] assms(3) by (simp add: percent_full)

lemma streamed_progress_complete:
  assumes "stream \<noteq> []" and "t = of_nat (length (concat stream))" and "t \<noteq> 0"
  shows "complete_progress
           (map (\<lambda>k. js_times (js_divide (of_nat (length (concat (take k stream)))) t) 100)
              [1..<Suc (length stream)])"
proof -
  let ?f = "\<lambda>k. js_times (js_divide (of_nat (length (concat (take k stream)))) t) 100"
  have tpos: "0 < t" using assms(2,3) by simp
  have mono: "?f i \<le> ?f j" if "i \<le> j" for i j
    using length_concat_take_mono [OF that, of stream] tpos
    by (intro percent_mono) simp_all
  have s: "sorted (map ?f [1..<Suc (length stream)])"
    by (rule sorted_map_upt) (rule mono)
  have rng: "0 \<le> ?f k \<and> ?f k \<le> 100" for k
  proof -
    have "(of_nat (length (concat (take k stream))) :: rat) \<le> t"
      using length_concat_take_le [of k stream] assms(2) by simp
    then show ?thesis
      using tpos by (simp add: percent_nonneg percent_le_100)
  qed
  have r: "list_all (\<lambda>p. 0 \<le> p \<and> p \<le> 100) (map ?f [1..<Suc (length stream)])"
    unfolding list_all_iff using rng by auto
  have pos: "Suc 0 \<le> length stream"
    using assms(1) by (cases stream) simp_all
  have ne: "map ?f [1..<Suc (length stream)] \<noteq> []"
    using pos by simp
  have "last (map ?f [1..<Suc (length stream)]) = ?f (length stream)"
    using pos by (simp add: last_map)
  also have "\<dots> = 100" using assms(2,3) by (simp add: percent_full)
  finally have l: "last (map ?f [1..<Suc (length stream)]) = 100" .
  show ?thesis unfolding complete_progress_def using s r ne l by blast
qed

lemma round_double_2_53: "round_double (2 ^ 53) = 2 ^ 53"
  using round_double_of_nat [of "2 ^ 53"] by simp

lemma to_number_nonneg: "0 \<le> to_number n"
  unfolding to_number_def by (rule round_double_nonneg) simp

lemma to_number_mono: "m \<le> n \<Longrightarrow> to_number m \<le> to_number n"
  unfolding to_number_def by (rule round_double_mono) simp_all

lemma to_number_pos: "n \<noteq> 0 \<Longrightarrow> 0 < to_number n"
proof -
  assume "n \<noteq> 0"
  then have "Suc 0 \<le> n" by simp
  then have "to_number (Suc 0) \<le> to_number n" by (rule to_number_mono)
  moreover have "to_number (Suc 0) = 1" by (simp add: to_number_def round_double_1)
  ultimately show ?thesis by simp
qed

lemma js_plus_overflow:
  assumes "2 ^ 53 \<le> x + of_nat n"  and "0 \<le> x"
  shows "2 ^ 53 \<le> js_plus x (to_number n)"
proof -
  have big: "(2 ^ 53 :: rat) \<le> x + to_number n"
  proof (cases "n \<le> 2 ^ 53")
    case True
    then show ?thesis using assms(1) by (simp add: to_number_exact)
  next
    case False
    then have "to_number (2 ^ 53) \<le> to_number n" by (intro to_number_mono) simp
    then have "2 ^ 53 \<le> to_number n" by (simp add: to_number_exact)
    then show ?thesis using assms(2) by simp
  qed
  have "round_double (2 ^ 53) \<le> round_double (x + to_number n)"
    by (rule round_double_mono [OF _ big]) simp
  then show ?thesis unfolding js_plus_def round_double_2_53 .
qed

lemma read_loop_stays_large:
  "2 ^ 53 \<le> x \<Longrightarrow> 2 ^ 53 \<le> fst (snd (read_loop t stream chunks x cs))"
proof (induction stream arbitrary: chunks x cs)
  case Nil
  then show ?case by simp
next
  case (Cons v rest)
  have "2 ^ 53 \<le> js_plus x (to_number (length v))"
    using Cons.prems by (intro js_plus_overflow) simp_all
  then show ?case unfolding read_loop.simps by (rule Cons.IH)
qed

lemma read_loop_overflow:
  "l \<le> 2 ^ 53 \<Longrightarrow> 2 ^ 53 \<le> l + length (concat stream) \<Longrightarrow>
   2 ^ 53 \<le> fst (snd (read_loop t stream chunks (of_nat l) cs))"
proof (induction stream arbitrary: chunks l cs)
  case Nil
  then have "l = 2 ^ 53" by simp
  then show ?case by simp
next
  case (Cons v rest)
  show ?case
  proof (cases "l + length v \<le> 2 ^ 53")
    case True
    have step: "js_plus (of_nat l) (to_number (length v)) = of_nat (l + length v)"
      by (rule js_plus_exact [OF True])
    have "2 ^ 53 \<le> l + length v + length (concat rest)" using Cons.prems(2) by simp
    from Cons.IH [OF True this] show ?thesis
      unfolding read_loop.simps step .
  next
    case False
    then have "(2 ^ 53 :: nat) \<le> l + length v" by simp
    then have "(of_nat (2 ^ 53) :: rat) \<le> of_nat (l + length v)" by (simp only: of_nat_le_iff)
    then have "(2 ^ 53 :: rat) \<le> of_nat l + of_nat (length v)" by simp
    then have "2 ^ 53 \<le> js_plus (of_nat l) (to_number (length v))"
      by (intro js_plus_overflow) simp_all
    then show ?thesis unfolding read_loop.simps by (rule read_loop_stays_large)
  qed
qed

lemma read_response_too_long:
  assumes "ok resp" and "content_length resp = Some c" and "c \<noteq> []"
    and "parseInt c = Some t" and "t \<noteq> 0" and "body resp = Some stream"
    and "2 ^ 53 \<le> length (concat stream)"
  shows "fst (read_response resp) = Inl RangeError"
proof -
  have "2 ^ 53 \<le> fst (snd (read_loop t stream [] (of_nat 0) []))"
    using assms(7) by (intro read_loop_overflow) simp_all
  then have "fst (snd (read_loop t stream [] 0 [])) > 2 ^ 53 - 1" by simp
  then show ?thesis
    using assms(1-6) by (auto simp: read_response_def split: prod.splits)
qed

subsection \<open>The upload events\<close>

lemma upload_percent_mono:
  assumes "l \<le> l'" and "tot \<noteq> 0"
  shows "upload_percent l tot \<le> upload_percent l' tot"
  unfolding upload_percent_def
  by (intro percent_mono to_number_nonneg to_number_mono to_number_pos assms)

lemma upload_percent_nonneg: "tot \<noteq> 0 \<Longrightarrow> 0 \<le> upload_percent l tot"
  unfolding upload_percent_def
  by (intro percent_nonneg to_number_nonneg to_number_pos)

lemma transmitted_ge: "l \<in> set (transmitted n parts) \<Longrightarrow> n \<le> l"
proof (induction parts arbitrary: n)
  case Nil
  then show ?case by simp
next
  case (Cons p ps)
  from Cons.prems have "l = n + p \<or> l \<in> set (transmitted (n + p) ps)" by simp
  then show ?case
  proof
    assume "l = n + p"
    then show ?thesis by simp
  next
    assume "l \<in> set (transmitted (n + p) ps)"
    then have "n + p \<le> l" by (rule Cons.IH)
    then show ?thesis by simp
  qed
qed

lemma sorted_transmitted: "sorted (transmitted n parts)"
proof (induction parts arbitrary: n)
  case Nil
  then show ?case by simp
next
  case (Cons p ps)
  have "n + p \<le> l" if "l \<in> set (transmitted (n + p) ps)" for l
    using that by (rule transmitted_ge)
  then show ?case using Cons.IH by simp
qed

lemma foldl_progress:
  "foldl (xhr_handler resp) st (map (\<lambda>l. UploadProgress (tot \<noteq> 0) l tot) ls)
     = st\<lparr>calls := calls st @ (if tot = 0 then []
                                else filter (\<lambda>p. p < 100) (map (\<lambda>l. upload_percent l tot) ls))\<rparr>"
  by (induction ls arbitrary: st) simp_all

lemma sorted_upload_percents:
  assumes "tot \<noteq> 0"
  shows "sorted (map (\<lambda>l. upload_percent l tot) (transmitted n parts))"
  unfolding sorted_map
  by (rule sorted_wrt_mono_rel [OF _ sorted_transmitted]) (rule upload_percent_mono [OF _ assms])

lemma round_double_2: "round_double 2 = 2"
  by code_simp

lemma round_double_3: "round_double 3 = 3"
  by code_simp

lemma parseInt_3: "parseInt ''3'' = Some 3"
  by (simp add: parseInt_def is_whitespace_def is_digit_def digit_value_def round_double_3)

lemma parseInt_2: "parseInt ''2'' = Some 2"
  by (simp add: parseInt_def is_whitespace_def is_digit_def digit_value_def round_double_2)

lemma percent_1_3: "js_times (js_divide 1 3) 100 = 2345624805922133 / 70368744177664"
  by code_simp

lemma percent_2_3: "js_times (js_divide 2 3) 100 = 2345624805922133 / 35184372088832"
  by code_simp

lemma percent_3_3: "js_times (js_divide 3 3) 100 = 100"
  by code_simp

lemma percent_2_2: "js_times (js_divide 2 2) 100 = 100"
  by code_simp

lemma percent_4_2: "js_times (js_divide 4 2) 100 = 200"
  by code_simp

lemma to_number_1: "to_number (Suc 0) = 1"
  by (simp add: to_number_def round_double_1)

lemma to_number_2: "to_number 2 = 2"
  by (simp add: to_number_def round_double_2)

lemma to_number_3: "to_number 3 = 3"
  by (simp add: to_number_def round_double_3)

lemma complete_after_progress:
  "complete_progress
     ((if tot = 0 then []
       else filter (\<lambda>p. p < 100) (map (\<lambda>l. upload_percent l tot) (transmitted n parts))) @ [100])"
proof (cases "tot = 0")
  case True
  then show ?thesis by (simp add: complete_progress_def)
next
  case False
  let ?P = "filter (\<lambda>p. p < 100) (map (\<lambda>l. upload_percent l tot) (transmitted n parts))"
  have s: "sorted ?P"
    by (rule sorted_wrt_filter) (rule sorted_upload_percents [OF False])
  have r: "\<forall>p \<in> set ?P. 0 \<le> p \<and> p \<le> 100"
    using upload_percent_nonneg [OF False] by auto
  have "sorted (?P @ [100])"
    using s r by (simp add: sorted_append)
  moreover have "list_all (\<lambda>p. 0 \<le> p \<and> p \<le> 100) (?P @ [100])"
    using r by (simp add: list_all_iff)
  ultimately show ?thesis using False by (simp add: complete_progress_def)
qed

lemma uploadWithXHR_resolved:
  assumes "fst (uploadWithXHR resp (dispatched_events tot parts final)) = Some (Inr r)"
  shows "complete_progress (snd (uploadWithXHR resp (dispatched_events tot parts final)))"
proof -
  let ?P = "if tot = 0 then []
            else filter (\<lambda>p. p < 100) (map (\<lambda>l. upload_percent l tot) (transmitted 0 parts))"
  let ?st = "\<lparr> calls = ?P, settled = None \<rparr>"
  have fold: "foldl (xhr_handler resp) \<lparr> calls = [], settled = None \<rparr>
                (map (\<lambda>l. UploadProgress (tot \<noteq> 0) l tot) (transmitted 0 parts)) = ?st"
    unfolding foldl_progress by simp
  have run: "uploadWithXHR resp (dispatched_events tot parts final) =
             (settled (xhr_handler resp ?st final), calls (xhr_handler resp ?st final) @ [100])"
    unfolding uploadWithXHR_def dispatched_events_def foldl_append fold
    by (simp add: Let_def)
  have "calls (xhr_handler resp ?st final) = ?P"
    using assms unfolding run by (cases final) (simp_all add: settle_def split: if_splits)
  then show ?thesis
    unfolding run snd_conv using complete_after_progress [of tot 0 parts] by simp
qed

lemma upload_resolved:
  assumes "fst (fst (upload fetch w schema env file s)) = Some (Inr r)"
  shows "complete_progress (snd (fst (upload fetch w schema env file s)))"
proof (cases "DataUploadRequestSchema (file_size file)")
  case None
  then show ?thesis using assms by (simp add: upload_def)
next
  case (Some req)
  obtain res s1 where p: "post fetch w ''/data/upload'' req schema s = (res, s1)"
    by (cases "post fetch w ''/data/upload'' req schema s")
  show ?thesis
  proof (cases res)
    case (Inl e)
    then show ?thesis using assms Some p by (simp add: upload_def)
  next
    case (Inr resp)
    show ?thesis
    proof (cases env)
      case (Browser tot parts final)
      have u: "fst (upload fetch w schema env file s)
               = uploadWithXHR resp (dispatched_events tot parts final)"
        using Some p Inr Browser by (simp add: upload_def)
      show ?thesis
        using assms unfolding u by (rule uploadWithXHR_resolved)
    next
      case Node
      have "snd (fst (upload fetch w schema env file s)) = [100]"
        using Some p Inr Node by (simp add: upload_def split: prod.splits)
      then show ?thesis by (simp add: complete_progress_def)
    qed
  qed
qed

subsection \<open>The examples, evaluated\<close>

lemma example_browser_upload:
  "fst (upload (always (json_response 200 ''OK'' (Some example_upload_json))) example_wrapper
          example_upload_schema (Browser 6 [2, 2, 2] (Load 204 ''No Content''))
          \<lparr> file_name = ''scan.pdf'', file_size = 4, file_type = ''application/pdf'' \<rparr> ())
     = (Some (Inr example_upload),
        [2345624805922133 / 70368744177664, 2345624805922133 / 35184372088832, 100])"
  by code_simp

lemma example_node_upload:
  "fst (upload (always (json_response 200 ''OK'' (Some example_upload_json))) example_wrapper
          example_upload_schema Node
          \<lparr> file_name = ''scan.pdf'', file_size = 4, file_type = ''application/pdf'' \<rparr> ())
     = (Some (Inr example_upload), [100])"
  by code_simp

lemma example_exact_download:
  "downloadBinary (always exact_length_download) ''https://bucket.example/f'' [] ()
     = ((Inr [7, 8, 9],
         [2345624805922133 / 70368744177664, 2345624805922133 / 35184372088832, 100]), ())"
  by code_simp

lemma downloadBinary_fallback:
  assumes "fetch \<lparr> http_method = ''GET'', url = u, headers = hs, req_body = None \<rparr> s = (Inr resp, s')"
    and "ok resp" and "content_length resp = None"
  shows "downloadBinary fetch u hs s = ((Inr (arrayBuffer resp), []), s')"
  using assms by (simp add: downloadBinary_def read_response_fallback)

text \<open>
  Claim C9. For every download whose response is a success and advertises a total length (a
  \<^verbatim>\<open>Content-Length\<close> that \<^verbatim>\<open>parseInt\<close> reads as a number \<open>t\<close> other than zero, here of at most
  \<open>2 ^ 53\<close> in absolute value, on a response with a body), \<open>downloadBinary\<close> returns exactly
  the chunks received, concatenated in order, so that the number of bytes returned is the sum
  of the chunk lengths, and after the \<open>k\<close>-th chunk it reports the number of bytes received so
  far divided by \<open>t\<close>, times 100, both operations in double-precision arithmetic. (Fewer than
  \<open>2 ^ 53\<close> bytes are received in a successful download: with more, \<^verbatim>\<open>new Uint8Array(loaded)\<close>
  throws a \<^verbatim>\<open>RangeError\<close>.) When no length is advertised the whole body is read in one step
  and no progress is reported.
\<close>

theorem downloadBinary_concatenates_chunks:
  "(fetch \<lparr> http_method = ''GET'', url = u, headers = hs, req_body = None \<rparr> s = (Inr resp, s') \<and>
    ok resp \<and> content_length resp = Some c \<and> parseInt c = Some t \<and> t \<noteq> 0 \<and>
    \<bar>t\<bar> \<le> 2 ^ 53 \<and> body resp = Some stream \<longrightarrow>
      (if length (concat stream) < 2 ^ 53
       then downloadBinary fetch u hs s =
              ((Inr (concat stream),
                map (\<lambda>k. js_times (js_divide (of_nat (length (concat (take k stream)))) t) 100)
                  [1..<Suc (length stream)]), s')
       else fst (fst (downloadBinary fetch u hs s)) = Inl RangeError) \<and>
      length (concat stream) = sum_list (map length stream)) \<and>
   (fetch \<lparr> http_method = ''GET'', url = u, headers = hs, req_body = None \<rparr> s = (Inr resp, s') \<and>
    ok resp \<and> content_length resp = None \<longrightarrow>
      downloadBinary fetch u hs s = ((Inr (arrayBuffer resp), []), s'))"
proof (intro conjI impI)
  assume a: "fetch \<lparr> http_method = ''GET'', url = u, headers = hs, req_body = None \<rparr> s = (Inr resp, s') \<and>
    ok resp \<and> content_length resp = Some c \<and> parseInt c = Some t \<and> t \<noteq> 0 \<and>
    \<bar>t\<bar> \<le> 2 ^ 53 \<and> body resp = Some stream"
  then have c: "c \<noteq> []" using parseInt_Nil by auto
  have a0: "fetch \<lparr> http_method = ''GET'', url = u, headers = hs, req_body = None \<rparr> s = (Inr resp, s')"
    and a1: "ok resp" and a2: "content_length resp = Some c" and a3: "parseInt c = Some t"
    and a4: "t \<noteq> 0" and a5: "body resp = Some stream"
    using a by blast+
  have d: "downloadBinary fetch u hs s = (read_response resp, s')"
    using a0 by (simp add: downloadBinary_def)
  show "if length (concat stream) < 2 ^ 53
       then downloadBinary fetch u hs s =
              ((Inr (concat stream),
                map (\<lambda>k. js_times (js_divide (of_nat (length (concat (take k stream)))) t) 100)
                  [1..<Suc (length stream)]), s')
       else fst (fst (downloadBinary fetch u hs s)) = Inl RangeError"
  proof (cases "length (concat stream) < 2 ^ 53")
    case True
    show ?thesis
      unfolding d read_response_streamed [OF a1 a2 c a3 a4 a5 True] using True by simp
  next
    case False
    then have "2 ^ 53 \<le> length (concat stream)" by simp
    then have "fst (read_response resp) = Inl RangeError"
      by (rule read_response_too_long [OF a1 a2 c a3 a4 a5])
    then show ?thesis unfolding d using False by simp
  qed
  show "length (concat stream) = sum_list (map length stream)"
    by (simp add: length_concat)
next
  assume "fetch \<lparr> http_method = ''GET'', url = u, headers = hs, req_body = None \<rparr> s = (Inr resp, s') \<and>
    ok resp \<and> content_length resp = None"
  then show "downloadBinary fetch u hs s = ((Inr (arrayBuffer resp), []), s')"
    by (intro downloadBinary_fallback) blast+
qed

theorem downloadBinary_concatenates_chunks_witness:
  "ok exact_length_download \<and> parseInt ''3'' = Some 3 \<and>
   downloadBinary (always exact_length_download) ''https://bucket.example/f'' [] ()
     = ((Inr [7, 8, 9],
         [2345624805922133 / 70368744177664, 2345624805922133 / 35184372088832, 100]), ()) \<and>
   ok no_length_download \<and>
   downloadBinary (always no_length_download) ''https://bucket.example/f'' [] ()
     = ((Inr [1, 2, 3], []), ())"
proof -
  have o1: "ok exact_length_download" and o2: "ok no_length_download"
    by (simp_all add: ok_def exact_length_download_def no_length_download_def)
  have d1: "downloadBinary (always exact_length_download) ''https://bucket.example/f'' [] ()
     = ((Inr [7, 8, 9],
         [2345624805922133 / 70368744177664, 2345624805922133 / 35184372088832, 100]), ())"
    using downloadBinary_concatenates_chunks
            [of "always exact_length_download" "''https://bucket.example/f''" "[]" "()"
                exact_length_download "()" "''3''" 3 "[[7], [8], [9]]"]
          o1 parseInt_3
    by (simp add: always_def exact_length_download_def upt_conv_Cons
          percent_1_3 percent_2_3 percent_3_3)
  have d2: "downloadBinary (always no_length_download) ''https://bucket.example/f'' [] ()
            = ((Inr [1, 2, 3], []), ())"
    using downloadBinary_concatenates_chunks
            [of "always no_length_download" "''https://bucket.example/f''" "[]" "()"
                no_length_download "()" "''3''" 3 "[[7], [8], [9]]"]
          o2
    by (simp add: always_def no_length_download_def arrayBuffer_def)
  show ?thesis using o1 o2 d1 d2 parseInt_3 by blast
qed

text \<open>
  Claim C7, as amended. For every upload that completes successfully, with \<^verbatim>\<open>XMLHttpRequest\<close>
  or without it, the values passed to the progress callback never decrease, each lies in
  [0, 100], and the last one is exactly 100. The same holds for every download that completes
  successfully and whose response advertises a total length that is the number of bytes
  received and not zero. A download whose response advertises no total length completes
  without any call of the progress callback.
\<close>

theorem progress_is_complete:
  "(fst (fst (upload fetch w schema env f s)) = Some (Inr r) \<longrightarrow>
      complete_progress (snd (fst (upload fetch w schema env f s)))) \<and>
   (fetch \<lparr> http_method = ''GET'', url = u, headers = hs, req_body = None \<rparr> s = (Inr res, s') \<and>
    ok res \<and> content_length res = Some c \<and>
    parseInt c = Some (of_nat (length (concat stream))) \<and> concat stream \<noteq> [] \<and>
    body res = Some stream \<and> fst (fst (downloadBinary fetch u hs s)) = Inr bytes \<longrightarrow>
      complete_progress (snd (fst (downloadBinary fetch u hs s)))) \<and>
   (fetch \<lparr> http_method = ''GET'', url = u, headers = hs, req_body = None \<rparr> s = (Inr res, s') \<and>
    ok res \<and> content_length res = None \<longrightarrow>
      downloadBinary fetch u hs s = ((Inr (arrayBuffer res), []), s'))"
proof (intro conjI impI)
  assume "fst (fst (upload fetch w schema env f s)) = Some (Inr r)"
  then show "complete_progress (snd (fst (upload fetch w schema env f s)))"
    by (rule upload_resolved)
next
  assume a: "fetch \<lparr> http_method = ''GET'', url = u, headers = hs, req_body = None \<rparr> s = (Inr res, s') \<and>
    ok res \<and> content_length res = Some c \<and>
    parseInt c = Some (of_nat (length (concat stream))) \<and> concat stream \<noteq> [] \<and>
    body res = Some stream \<and> fst (fst (downloadBinary fetch u hs s)) = Inr bytes"
  then have c: "c \<noteq> []" using parseInt_Nil by auto
  have t: "(of_nat (length (concat stream)) :: rat) \<noteq> 0" and ne: "stream \<noteq> []"
    using a by auto
  have a0: "fetch \<lparr> http_method = ''GET'', url = u, headers = hs, req_body = None \<rparr> s = (Inr res, s')"
    and a1: "ok res" and a2: "content_length res = Some c"
    and a3: "parseInt c = Some (of_nat (length (concat stream)))"
    and a5: "body res = Some stream"
    and a6: "fst (fst (downloadBinary fetch u hs s)) = Inr bytes"
    using a by blast+
  have d: "downloadBinary fetch u hs s = (read_response res, s')"
    using a0 by (simp add: downloadBinary_def)
  have small: "length (concat stream) < 2 ^ 53"
  proof (rule ccontr)
    assume "\<not> length (concat stream) < 2 ^ 53"
    then have "2 ^ 53 \<le> length (concat stream)" by simp
    then have "fst (read_response res) = Inl RangeError"
      by (rule read_response_too_long [OF a1 a2 c a3 t a5])
    then show False using a6 unfolding d by simp
  qed
  show "complete_progress (snd (fst (downloadBinary fetch u hs s)))"
    unfolding d fst_conv read_response_streamed [OF a1 a2 c a3 t a5 small] snd_conv
    by (rule streamed_progress_complete [OF ne refl t])
next
  assume "fetch \<lparr> http_method = ''GET'', url = u, headers = hs, req_body = None \<rparr> s = (Inr res, s') \<and>
    ok res \<and> content_length res = None"
  then show "downloadBinary fetch u hs s = ((Inr (arrayBuffer res), []), s')"
    by (intro downloadBinary_fallback) blast+
qed

theorem progress_is_complete_witness:
  "fst (upload (always (json_response 200 ''OK'' (Some example_upload_json))) example_wrapper
          example_upload_schema Node
          \<lparr> file_name = ''scan.pdf'', file_size = 4, file_type = ''application/pdf'' \<rparr> ())
     = (Some (Inr example_upload), [100]) \<and>
   complete_progress [100] \<and>
   fst (upload (always (json_response 200 ''OK'' (Some example_upload_json))) example_wrapper
          example_upload_schema (Browser 6 [2, 2, 2] (Load 204 ''No Content''))
          \<lparr> file_name = ''scan.pdf'', file_size = 4, file_type = ''application/pdf'' \<rparr> ())
     = (Some (Inr example_upload),
        [2345624805922133 / 70368744177664, 2345624805922133 / 35184372088832, 100]) \<and>
   downloadBinary (always exact_length_download) ''https://bucket.example/f'' [] ()
     = ((Inr [7, 8, 9],
         [2345624805922133 / 70368744177664, 2345624805922133 / 35184372088832, 100]), ()) \<and>
   complete_progress
     [2345624805922133 / 70368744177664, 2345624805922133 / 35184372088832, 100] \<and>
   downloadBinary (always no_length_download) ''https://bucket.example/f'' [] ()
     = ((Inr [1, 2, 3], []), ())"
proof -
  let ?fetch = "always (json_response 200 ''OK'' (Some example_upload_json))"
  let ?f = "\<lparr> file_name = ''scan.pdf'', file_size = 4, file_type = ''application/pdf'' \<rparr>"
  let ?u = "''https://bucket.example/f''"
  have node: "complete_progress [100]"
    using progress_is_complete
      [of ?fetch example_wrapper example_upload_schema Node ?f "()" example_upload
          ?u "[]" exact_length_download "()" "''3''" "[[7], [8], [9]]" "[7, 8, 9]"]
    by (simp add: example_node_upload)
  have browser: "complete_progress
     [2345624805922133 / 70368744177664, 2345624805922133 / 35184372088832, 100]"
    using progress_is_complete
      [of ?fetch example_wrapper example_upload_schema
          "Browser 6 [2, 2, 2] (Load 204 ''No Content'')" ?f "()" example_upload
          ?u "[]" exact_length_download "()" "''3''" "[[7], [8], [9]]" "[7, 8, 9]"]
    by (simp add: example_browser_upload)
  have o1: "ok exact_length_download" and o2: "ok no_length_download"
    by (simp_all add: ok_def exact_length_download_def no_length_download_def)
  have fetched: "always exact_length_download
                   \<lparr> http_method = ''GET'', url = ?u, headers = [], req_body = None \<rparr> ()
                 = (Inr exact_length_download, ())"
    by (simp add: always_def)
  have advertised: "content_length exact_length_download = Some ''3''"
    "body exact_length_download = Some [[7], [8], [9]]"
    by (simp_all add: exact_length_download_def)
  have dl: "complete_progress
     [2345624805922133 / 70368744177664, 2345624805922133 / 35184372088832, 100]"
    using progress_is_complete
      [of "always exact_length_download" example_wrapper example_upload_schema Node ?f "()"
          example_upload ?u "[]" exact_length_download "()" "''3''" "[[7], [8], [9]]" "[7, 8, 9]"]
      o1 parseInt_3 fetched advertised
    by (simp add: example_exact_download)
  have none: "downloadBinary (always no_length_download) ?u [] () = ((Inr [1, 2, 3], []), ())"
    using progress_is_complete
      [of "always no_length_download" example_wrapper example_upload_schema Node ?f "()"
          example_upload ?u "[]" no_length_download "()" "''3''" "[[7], [8], [9]]" "[7, 8, 9]"]
      o2
    by (simp add: always_def no_length_download_def arrayBuffer_def)
  show ?thesis using node browser dl none by (simp add: example_node_upload example_browser_upload example_exact_download)
qed

text \<open>
  Claim C7 as stated fails for downloads: a completed download with no \<^verbatim>\<open>Content-Length\<close>
  makes no call of the progress callback, so no final call is 100; and when the advertised
  length is smaller than the body delivered (as it is for a compressed body), the values
  exceed 100 and the last one is not 100.
\<close>

theorem download_progress_counterexample:
  "ok no_length_download \<and>
   downloadBinary (always no_length_download) ''https://bucket.example/f'' [] ()
     = ((Inr [1, 2, 3], []), ()) \<and>
   \<not> complete_progress [] \<and>
   ok short_length_download \<and>
   downloadBinary (always short_length_download) ''https://bucket.example/f'' [] ()
     = ((Inr [1, 2, 3, 4], [100, 200]), ()) \<and>
   \<not> complete_progress [100, 200]"
  by code_simp

section \<open>Properties of \<open>Flow\<close>\<close>

lemma await_return: "await (return a) k = k a"
  by (rule ext) (simp add: await_def return_def)

lemma await_throw: "await (throw e) k = throw e"
  by (rule ext) (simp add: await_def throw_def)

lemma await_assoc: "await (await m k) k' = await m (\<lambda>a. await (k a) k')"
  by (rule ext) (simp add: await_def split: prod.splits sum.splits)

lemma await_Inr: "m s = (Inr a, s') \<Longrightarrow> await m k s = k a s'"
  by (simp add: await_def)

lemma await_Inl: "m s = (Inl e, s') \<Longrightarrow> await m k s = (Inl e, s')"
  by (simp add: await_def)

lemma extract_loop_in_order:
  "extract_loop ep h docs acc =
     await (in_order (\<lambda>d. extractQuadrilateral ep h (quadrilateral d)) docs)
       (\<lambda>es. return (acc @ map img_handle es))"
proof (induction docs arbitrary: acc)
  case Nil
  then show ?case by (simp add: await_return)
next
  case (Cons doc rest)
  show ?case
    by (simp add: Cons.IH await_assoc await_return)
qed

lemma convert_loop_in_order:
  "convert_loop ep opts imgs acc =
     await (in_order (\<lambda>i. img_ocrToPdf ep i opts) imgs)
       (\<lambda>ps. return (acc @ map pdf_handle ps))"
proof (induction imgs arbitrary: acc)
  case Nil
  then show ?case by (simp add: await_return)
next
  case (Cons i rest)
  show ?case
    by (simp add: Cons.IH await_assoc await_return)
qed

lemma in_order_length:
  "in_order f xs s = (Inr ys, s') \<Longrightarrow> length ys = length xs"
proof (induction xs arbitrary: s ys s')
  case Nil
  then show ?case by (simp add: return_def)
next
  case (Cons x xs)
  then show ?case
    by (auto simp: await_def return_def split: prod.splits sum.splits)
qed

lemma conversion_stage:
  "await (convert_loop (img this) opts imgs [])
     (\<lambda>pdfHandles.
        await (compose (pdf this) pdfHandles)
          (\<lambda>combinedPdf.
             await (orientation (pdf this) (pdf_handle combinedPdf))
               (\<lambda>oriented.
                  await (pdf_ocrToPdf (pdf this) (rotated_pdf_handle oriented))
                    (\<lambda>ocrPdf.
                       await (optimize (pdf this) (pdf_handle ocrPdf))
                         (\<lambda>optimizedPdf. return (pdf_handle optimizedPdf))))))
   = converted_composed_finished this opts imgs"
  by (simp add: converted_composed_finished_def convert_loop_in_order composed_def
        oriented_ocr_optimized_def await_assoc await_return)

lemma ocrImgHandle_disabled:
  assumes "extractDocument options = Some False"
  shows "ocrImgHandle this h options = converted_composed_finished this (pdfOptions options) [h]"
  using assms by (simp add: ocrImgHandle_def await_return conversion_stage)

lemma ocrImgHandle_detected:
  assumes "extractDocument options \<noteq> Some False"
  shows "ocrImgHandle this h options =
           await (findDocuments (img this) h)
             (\<lambda>docs.
                await (in_order (\<lambda>d. extractQuadrilateral (img this) h (quadrilateral d))
                         (documents docs))
                  (\<lambda>es. converted_composed_finished this (pdfOptions options)
                           (if es = [] then [h] else map img_handle es)))"
proof -
  have on: "(case extractDocument options of None \<Rightarrow> True | Some b \<Rightarrow> b)"
    using assms by (cases "extractDocument options") auto
  show ?thesis
    unfolding ocrImgHandle_def conversion_stage
    by (simp add: on extract_loop_in_order await_assoc await_return if_distrib [of "\<lambda>l. converted_composed_finished this (pdfOptions options) l"] cong: if_cong)
qed

lemmas example_simps =
  example_flow_def recorded_def await_def return_def throw_def composed_def
  oriented_ocr_optimized_def default_options_def no_extraction_def

lemma single_image:
  "converted_composed_finished this opts [h] =
     await (img_ocrToPdf (img this) h opts)
       (\<lambda>p. await (composed this [pdf_handle p]) (oriented_ocr_optimized this))"
  by (simp add: converted_composed_finished_def await_assoc await_return)

text \<open>
  Claim C3, as amended. In \<open>ocrImgHandle\<close>, if document extraction is disabled, or document
  detection returns zero quadrilaterals, the original image handle is the only entry of the
  conversion stage: it alone is converted, and the composed PDF is the composition of exactly
  that one converted image, which then goes through orientation, OCR and optimization. Zero
  results never abort the pipeline. A detection call that fails does abort it: its error is
  the outcome of the pipeline, and nothing is converted.
\<close>

theorem no_documents_uses_original_image:
  "(extractDocument options = Some False \<longrightarrow>
      ocrImgHandle this h options s =
        await (img_ocrToPdf (img this) h (pdfOptions options))
          (\<lambda>p. await (composed this [pdf_handle p]) (oriented_ocr_optimized this)) s) \<and>
   (extractDocument options \<noteq> Some False \<and> findDocuments (img this) h s = (Inr docs, s1) \<and>
    documents docs = [] \<longrightarrow>
      ocrImgHandle this h options s =
        await (img_ocrToPdf (img this) h (pdfOptions options))
          (\<lambda>p. await (composed this [pdf_handle p]) (oriented_ocr_optimized this)) s1) \<and>
   (extractDocument options \<noteq> Some False \<and> findDocuments (img this) h s = (Inl e, s1) \<longrightarrow>
      ocrImgHandle this h options s = (Inl e, s1))"
proof (intro conjI impI)
  assume "extractDocument options = Some False"
  then show "ocrImgHandle this h options s =
        await (img_ocrToPdf (img this) h (pdfOptions options))
          (\<lambda>p. await (composed this [pdf_handle p]) (oriented_ocr_optimized this)) s"
    by (simp add: ocrImgHandle_disabled single_image)
next
  assume a: "extractDocument options \<noteq> Some False \<and>
             findDocuments (img this) h s = (Inr docs, s1) \<and> documents docs = []"
  then have on: "extractDocument options \<noteq> Some False" by blast
  show "ocrImgHandle this h options s =
        await (img_ocrToPdf (img this) h (pdfOptions options))
          (\<lambda>p. await (composed this [pdf_handle p]) (oriented_ocr_optimized this)) s1"
    using a
    by (simp add: ocrImgHandle_detected [OF on] await_Inr await_return single_image)
next
  assume a: "extractDocument options \<noteq> Some False \<and>
             findDocuments (img this) h s = (Inl e, s1)"
  then have on: "extractDocument options \<noteq> Some False" by blast
  show "ocrImgHandle this h options s = (Inl e, s1)"
    using a by (simp add: ocrImgHandle_detected [OF on] await_Inl)
qed

theorem no_documents_uses_original_image_witness:
  "ocrImgHandle (example_flow (Inr [])) ''img-1'' no_extraction []
     = (Inr ''opt(ocr(rot(composed)))'',
        [ImgOcrToPdf ''img-1'', Compose [''pdf(img-1)''], Orientation ''composed'',
         PdfOcrToPdf ''rot(composed)'', Optimize ''ocr(rot(composed))'']) \<and>
   findDocuments (img (example_flow (Inr []))) ''img-1'' []
     = (Inr \<lparr> documents = [] \<rparr>, [FindDocuments ''img-1'']) \<and>
   ocrImgHandle (example_flow (Inr [])) ''img-1'' default_options []
     = (Inr ''opt(ocr(rot(composed)))'',
        [FindDocuments ''img-1'', ImgOcrToPdf ''img-1'', Compose [''pdf(img-1)''],
         Orientation ''composed'', PdfOcrToPdf ''rot(composed)'',
         Optimize ''ocr(rot(composed))'']) \<and>
   ocrImgHandle (example_flow (Inl detection_failed)) ''img-1'' default_options []
     = (Inl detection_failed, [FindDocuments ''img-1''])"
proof -
  have f0: "findDocuments (img (example_flow (Inr []))) ''img-1'' []
            = (Inr \<lparr> documents = [] \<rparr>, [FindDocuments ''img-1''])"
    by (simp add: example_simps)
  have f1: "findDocuments (img (example_flow (Inl detection_failed))) ''img-1'' []
            = (Inl detection_failed, [FindDocuments ''img-1''])"
    by (simp add: example_simps)
  have off: "ocrImgHandle (example_flow (Inr [])) ''img-1'' no_extraction []
     = (Inr ''opt(ocr(rot(composed)))'',
        [ImgOcrToPdf ''img-1'', Compose [''pdf(img-1)''], Orientation ''composed'',
         PdfOcrToPdf ''rot(composed)'', Optimize ''ocr(rot(composed))''])"
    using no_documents_uses_original_image
            [of no_extraction "example_flow (Inr [])" "''img-1''" "[]"]
    by (simp add: example_simps)
  have none: "ocrImgHandle (example_flow (Inr [])) ''img-1'' default_options []
     = (Inr ''opt(ocr(rot(composed)))'',
        [FindDocuments ''img-1'', ImgOcrToPdf ''img-1'', Compose [''pdf(img-1)''],
         Orientation ''composed'', PdfOcrToPdf ''rot(composed)'',
         Optimize ''ocr(rot(composed))''])"
    using no_documents_uses_original_image
            [of default_options "example_flow (Inr [])" "''img-1''" "[]"
                "\<lparr> documents = [] \<rparr>" "[FindDocuments ''img-1'']"]
          f0
    by (simp add: example_simps)
  have failed: "ocrImgHandle (example_flow (Inl detection_failed)) ''img-1'' default_options []
     = (Inl detection_failed, [FindDocuments ''img-1''])"
    using no_documents_uses_original_image
            [of default_options "example_flow (Inl detection_failed)" "''img-1''" "[]"
                _ "[FindDocuments ''img-1'']" detection_failed]
          f1
    by (simp add: default_options_def)
  show ?thesis using f0 off none failed by blast
qed

text \<open>
  Claim C3 as stated fails in its last sentence: when the detection call itself fails, the
  pipeline is aborted with that error after the one call, and the original image is not
  converted.
\<close>

theorem detection_failure_counterexample:
  "ocrImgHandle (example_flow (Inl detection_failed)) ''img-1'' default_options []
     = (Inl detection_failed, [FindDocuments ''img-1''])"
  by (simp add: ocrImgHandle_def example_simps)

text \<open>
  Claim C4. In \<open>ocrImgHandle\<close> with document extraction enabled and N \<ge> 1 detected
  documents, the quadrilaterals are extracted one after the other in the order detection
  returned them; then each extracted image is submitted for OCR-to-PDF conversion, in the
  same order; and where both stages succeed they yield exactly N images and N PDF handles,
  and the N PDF handles are composed into a single PDF in that list order.
\<close>

theorem detected_documents_in_order:
  "extractDocument options \<noteq> Some False \<and> findDocuments (img this) h s = (Inr docs, s1) \<and>
   documents docs \<noteq> [] \<longrightarrow>
     ocrImgHandle this h options s =
       await (in_order (\<lambda>d. extractQuadrilateral (img this) h (quadrilateral d)) (documents docs))
         (\<lambda>es. await (in_order (\<lambda>i. img_ocrToPdf (img this) i (pdfOptions options))
                        (map img_handle es))
            (\<lambda>ps. await (composed this (map pdf_handle ps)) (oriented_ocr_optimized this))) s1 \<and>
     (\<forall>es s2 ps s3.
        in_order (\<lambda>d. extractQuadrilateral (img this) h (quadrilateral d)) (documents docs) s1
          = (Inr es, s2) \<and>
        in_order (\<lambda>i. img_ocrToPdf (img this) i (pdfOptions options)) (map img_handle es) s2
          = (Inr ps, s3) \<longrightarrow>
        length es = length (documents docs) \<and> length ps = length (documents docs) \<and>
        ocrImgHandle this h options s =
          await (composed this (map pdf_handle ps)) (oriented_ocr_optimized this) s3)"
proof (intro impI)
  let ?cut = "\<lambda>d. extractQuadrilateral (img this) h (quadrilateral d)"
  let ?conv = "\<lambda>i. img_ocrToPdf (img this) i (pdfOptions options)"
  let ?rest = "\<lambda>es. await (in_order ?conv (map img_handle es))
            (\<lambda>ps. await (composed this (map pdf_handle ps)) (oriented_ocr_optimized this))"
  assume a: "extractDocument options \<noteq> Some False \<and>
             findDocuments (img this) h s = (Inr docs, s1) \<and> documents docs \<noteq> []"
  then have on: "extractDocument options \<noteq> Some False"
    and found: "findDocuments (img this) h s = (Inr docs, s1)"
    and some: "documents docs \<noteq> []"
    by blast+
  have nonempty: "es \<noteq> []" if "in_order ?cut (documents docs) s' = (Inr es, s'')" for es s' s''
    using in_order_length [OF that] some by auto
  have pick: "await (in_order ?cut (documents docs))
                (\<lambda>es. converted_composed_finished this (pdfOptions options)
                         (if es = [] then [h] else map img_handle es)) s1
              = await (in_order ?cut (documents docs)) ?rest s1"
  proof (cases "in_order ?cut (documents docs) s1")
    case (Pair r s2)
    show ?thesis
    proof (cases r)
      case (Inl e)
      with Pair show ?thesis by (simp add: await_def)
    next
      case (Inr es)
      with Pair nonempty have "es \<noteq> []" by blast
      with Pair Inr show ?thesis
        by (simp add: await_def converted_composed_finished_def)
    qed
  qed
  have eq: "ocrImgHandle this h options s = await (in_order ?cut (documents docs)) ?rest s1"
    using found pick by (simp add: ocrImgHandle_detected [OF on] await_Inr)
  have succ: "length es = length (documents docs) \<and> length ps = length (documents docs) \<and>
        ocrImgHandle this h options s =
          await (composed this (map pdf_handle ps)) (oriented_ocr_optimized this) s3"
    if e: "in_order ?cut (documents docs) s1 = (Inr es, s2)"
      and c: "in_order ?conv (map img_handle es) s2 = (Inr ps, s3)" for es s2 ps s3
  proof -
    have l1: "length es = length (documents docs)" by (rule in_order_length [OF e])
    have l2: "length ps = length (documents docs)"
      using in_order_length [OF c] l1 by simp
    have "ocrImgHandle this h options s
          = await (composed this (map pdf_handle ps)) (oriented_ocr_optimized this) s3"
      unfolding eq by (simp add: await_def e c)
    with l1 l2 show ?thesis by blast
  qed
  show "ocrImgHandle this h options s = await (in_order ?cut (documents docs)) ?rest s1 \<and>
     (\<forall>es s2 ps s3.
        in_order ?cut (documents docs) s1 = (Inr es, s2) \<and>
        in_order ?conv (map img_handle es) s2 = (Inr ps, s3) \<longrightarrow>
        length es = length (documents docs) \<and> length ps = length (documents docs) \<and>
        ocrImgHandle this h options s =
          await (composed this (map pdf_handle ps)) (oriented_ocr_optimized this) s3)"
    using eq succ by blast
qed

theorem detected_documents_in_order_witness:
  "findDocuments (img (example_flow (Inr two_documents))) ''img-1'' []
     = (Inr \<lparr> documents = two_documents \<rparr>, [FindDocuments ''img-1'']) \<and>
   two_documents \<noteq> [] \<and>
   ocrImgHandle (example_flow (Inr two_documents)) ''img-1'' default_options []
     = (Inr ''opt(ocr(rot(composed)))'',
        [FindDocuments ''img-1'',
         ExtractQuadrilateral ''img-1'' left_half, ExtractQuadrilateral ''img-1'' right_half,
         ImgOcrToPdf ''img-1#1'', ImgOcrToPdf ''img-1#2'',
         Compose [''pdf(img-1#1)'', ''pdf(img-1#2)''],
         Orientation ''composed'', PdfOcrToPdf ''rot(composed)'',
         Optimize ''ocr(rot(composed))''])"
proof -
  have f: "findDocuments (img (example_flow (Inr two_documents))) ''img-1'' []
           = (Inr \<lparr> documents = two_documents \<rparr>, [FindDocuments ''img-1''])"
    by (simp add: example_simps)
  have ne: "two_documents \<noteq> []" by (simp add: two_documents_def)
  have run: "ocrImgHandle (example_flow (Inr two_documents)) ''img-1'' default_options []
     = (Inr ''opt(ocr(rot(composed)))'',
        [FindDocuments ''img-1'',
         ExtractQuadrilateral ''img-1'' left_half, ExtractQuadrilateral ''img-1'' right_half,
         ImgOcrToPdf ''img-1#1'', ImgOcrToPdf ''img-1#2'',
         Compose [''pdf(img-1#1)'', ''pdf(img-1#2)''],
         Orientation ''composed'', PdfOcrToPdf ''rot(composed)'',
         Optimize ''ocr(rot(composed))''])"
    using detected_documents_in_order
            [of default_options "example_flow (Inr two_documents)" "''img-1''" "[]"
                "\<lparr> documents = two_documents \<rparr>" "[FindDocuments ''img-1'']"]
          f ne
    by (simp add: example_simps two_documents_def show_nat.simps)
  show ?thesis using f ne run by blast
qed

text \<open>
  Claim C5. For both pipelines the raw-bytes entry point is upload, validate and unwrap
  followed by the handle entry point: \<open>ocrPdf\<close> is \<open>ocrPdfHandle\<close> applied to the handle
  that upload, validate and \<open>okPdf\<close> yield, and \<open>ocrImg\<close> is \<open>ocrImgHandle\<close> applied to the
  handle that upload, validate and \<open>okImg\<close> yield, with the same outcome and the same final
  state. The handle entry points perform no upload and no validation: they are the same
  whatever the upload, validation and unwrapping components are replaced by.
\<close>

theorem raw_bytes_entry_composes_handle_entry:
  "ocrPdf this input options =
     await (upload_validate_okPdf this input options) (\<lambda>h. ocrPdfHandle this h options) \<and>
   ocrImg this input img_options =
     await (upload_validate_okImg this input img_options) (\<lambda>h. ocrImgHandle this h img_options) \<and>
   ocrPdfHandle
     (this\<lparr>data := d, okImg := ki, okPdf := kp,
           img := (img this)\<lparr>img_validate := vi\<rparr>, pdf := (pdf this)\<lparr>pdf_validate := vp\<rparr>\<rparr>)
     h options = ocrPdfHandle this h options \<and>
   ocrImgHandle
     (this\<lparr>data := d, okImg := ki, okPdf := kp,
           img := (img this)\<lparr>img_validate := vi\<rparr>, pdf := (pdf this)\<lparr>pdf_validate := vp\<rparr>\<rparr>)
     h img_options = ocrImgHandle this h img_options"
proof (intro conjI)
  show "ocrPdf this input options =
     await (upload_validate_okPdf this input options) (\<lambda>h. ocrPdfHandle this h options)"
    by (rule ext)
       (simp add: ocrPdf_def upload_validate_okPdf_def await_def throw_def
          split: prod.splits sum.splits)
  show "ocrImg this input img_options =
     await (upload_validate_okImg this input img_options) (\<lambda>h. ocrImgHandle this h img_options)"
    by (rule ext)
       (simp add: ocrImg_def upload_validate_okImg_def await_def throw_def
          split: prod.splits sum.splits)
  show "ocrPdfHandle
     (this\<lparr>data := d, okImg := ki, okPdf := kp,
           img := (img this)\<lparr>img_validate := vi\<rparr>, pdf := (pdf this)\<lparr>pdf_validate := vp\<rparr>\<rparr>)
     h options = ocrPdfHandle this h options"
    by (simp add: ocrPdfHandle_def)
  have e: "extract_loop (ep\<lparr>img_validate := vi\<rparr>) h' docs acc = extract_loop ep h' docs acc"
    for ep h' docs acc
    by (induction docs arbitrary: acc) simp_all
  have c: "convert_loop (ep\<lparr>img_validate := vi\<rparr>) opts imgs acc = convert_loop ep opts imgs acc"
    for ep opts imgs acc
    by (induction imgs arbitrary: acc) simp_all
  show "ocrImgHandle
     (this\<lparr>data := d, okImg := ki, okPdf := kp,
           img := (img this)\<lparr>img_validate := vi\<rparr>, pdf := (pdf this)\<lparr>pdf_validate := vp\<rparr>\<rparr>)
     h img_options = ocrImgHandle this h img_options"
    by (simp add: ocrImgHandle_def e c)
qed

theorem raw_bytes_entry_composes_handle_entry_witness:
  "upload_validate_okPdf (example_flow (Inr [])) (InputBuffer [37, 80, 68, 70])
       \<lparr> pdf_onProgress = None, password = None \<rparr> []
     = (Inr ''pdf:raw:document.pdf'',
        [Upload \<lparr> file_name = ''document.pdf'', file_size = 4, file_type = ''application/pdf'' \<rparr>,
         PdfValidate ''raw:document.pdf'' None]) \<and>
   ocrPdf (example_flow (Inr [])) (InputBuffer [37, 80, 68, 70])
       \<lparr> pdf_onProgress = None, password = None \<rparr> []
     = (Inr ''opt(ocr(rot(pdf:raw:document.pdf)))'',
        [Upload \<lparr> file_name = ''document.pdf'', file_size = 4, file_type = ''application/pdf'' \<rparr>,
         PdfValidate ''raw:document.pdf'' None,
         Orientation ''pdf:raw:document.pdf'', PdfOcrToPdf ''rot(pdf:raw:document.pdf)'',
         Optimize ''ocr(rot(pdf:raw:document.pdf))'']) \<and>
   ocrPdfHandle (example_flow (Inr [])) ''pdf:raw:document.pdf''
       \<lparr> pdf_onProgress = None, password = None \<rparr> []
     = (Inr ''opt(ocr(rot(pdf:raw:document.pdf)))'',
        [Orientation ''pdf:raw:document.pdf'', PdfOcrToPdf ''rot(pdf:raw:document.pdf)'',
         Optimize ''ocr(rot(pdf:raw:document.pdf))''])"
proof -
  let ?opts = "\<lparr> pdf_onProgress = None, password = None \<rparr> :: unit OcrPdfOptions"
  have u: "upload_validate_okPdf (example_flow (Inr [])) (InputBuffer [37, 80, 68, 70]) ?opts []
     = (Inr ''pdf:raw:document.pdf'',
        [Upload \<lparr> file_name = ''document.pdf'', file_size = 4, file_type = ''application/pdf'' \<rparr>,
         PdfValidate ''raw:document.pdf'' None])"
    by (simp add: upload_validate_okPdf_def toFile_def example_simps)
  have h: "ocrPdfHandle (example_flow (Inr [])) ''pdf:raw:document.pdf'' ?opts s
     = (Inr ''opt(ocr(rot(pdf:raw:document.pdf)))'',
        s @ [Orientation ''pdf:raw:document.pdf'', PdfOcrToPdf ''rot(pdf:raw:document.pdf)'',
         Optimize ''ocr(rot(pdf:raw:document.pdf))''])" for s
    by (simp add: ocrPdfHandle_def example_simps)
  have r: "ocrPdf (example_flow (Inr [])) (InputBuffer [37, 80, 68, 70]) ?opts []
     = (Inr ''opt(ocr(rot(pdf:raw:document.pdf)))'',
        [Upload \<lparr> file_name = ''document.pdf'', file_size = 4, file_type = ''application/pdf'' \<rparr>,
         PdfValidate ''raw:document.pdf'' None,
         Orientation ''pdf:raw:document.pdf'', PdfOcrToPdf ''rot(pdf:raw:document.pdf)'',
         Optimize ''ocr(rot(pdf:raw:document.pdf))''])"
    using raw_bytes_entry_composes_handle_entry
            [of "example_flow (Inr [])" "InputBuffer [37, 80, 68, 70]" ?opts]
    by (simp add: await_def u h)
  show ?thesis using u h [of "[]"] r by simp
qed

end
